theory Spec2Isabelle
  imports Complex_Main
begin

section \<open>JavaScript values and AST nodes\<close>

text \<open>
  The helpers of \<^verbatim>\<open>src/lib/utils/ast-utils.js\<close> take plain JavaScript values (the
  configuration description) and AST nodes of the external toolkit, and the source tells
  them apart only by probing (\<^verbatim>\<open>typeof\<close>, \<^verbatim>\<open>Array.isArray\<close>, \<^verbatim>\<open>hasOwnProperty("type")\<close>).
  A node is an ordinary object, and the source stores raw values in node positions
  (\<^verbatim>\<open>prop.value = value\<close>), so both live in one datatype.

  A number is the mathematical value of its literal (the rounding to an IEEE double is
  not modelled, and \<^verbatim>\<open>-0\<close> is \<^verbatim>\<open>0\<close>), one of the two infinities, or NaN.
  A string is a list of 8-bit code units. A plain object is the list of its own
  enumerable properties in the order \<^verbatim>\<open>Object.keys\<close> gives them.
  Objects carrying \<^verbatim>\<open>__paths\<close> (fragments parsed by the toolkit) are not part of the
  datatype: a plain object with a truthy \<^verbatim>\<open>__paths\<close> ends in \<open>Unmodelled\<close>.
\<close>

datatype jsnum = Finite rat | PosInfinity | NegInfinity | NaN

datatype jsval =
    VUndefined
  | VNull
  | VBool bool
  | VNum jsnum
  | VStr string
  | VRegExp string
  | VArr "jsval list"
  | VObj "(string \<times> jsval) list"
  | Identifier string
  | Literal jsval
  | Property jsval jsval
  | ObjectExpression "jsval list"
  | ArrayExpression "jsval list"
  | NewExpression jsval "jsval list"
  | MemberExpression jsval jsval

datatype error =
    TypeError
  | BuilderError
  | EmptyCollection
  | Unmodelled

subsection \<open>The language's \<^verbatim>\<open>Number(string)\<close> and \<^verbatim>\<open>isNaN\<close>\<close>

definition isStrWhiteSpaceChar :: "char \<Rightarrow> bool" where
  "isStrWhiteSpaceChar c = (of_char c \<in> {9, 10, 11, 12, 13, 32, 160 :: nat})"

definition trimString :: "string \<Rightarrow> string" where
  "trimString s = rev (dropWhile isStrWhiteSpaceChar (rev (dropWhile isStrWhiteSpaceChar s)))"

definition digitValue :: "char \<Rightarrow> nat option" where
  "digitValue c =
     (let n = of_char c :: nat in
      if 48 \<le> n \<and> n \<le> 57 then Some (n - 48)
      else if 97 \<le> n \<and> n \<le> 102 then Some (n - 87)
      else if 65 \<le> n \<and> n \<le> 70 then Some (n - 55)
      else None)"

definition isDigitIn :: "nat \<Rightarrow> char \<Rightarrow> bool" where
  "isDigitIn base c = (case digitValue c of None \<Rightarrow> False | Some d \<Rightarrow> d < base)"

fun digitsValue :: "nat \<Rightarrow> nat \<Rightarrow> string \<Rightarrow> nat" where
  "digitsValue base acc [] = acc"
| "digitsValue base acc (c # cs) =
     digitsValue base (acc * base + (case digitValue c of None \<Rightarrow> 0 | Some d \<Rightarrow> d)) cs"

text \<open>\<^verbatim>\<open>ExponentPart\<close> of the grammar, or nothing: the exponent, None when malformed.\<close>

definition exponentPart :: "string \<Rightarrow> int option" where
  "exponentPart s =
     (case s of
        [] \<Rightarrow> Some 0
      | c # r \<Rightarrow>
          if c = CHR ''e'' \<or> c = CHR ''E'' then
            (let (neg, ds) = (case r of
                               [] \<Rightarrow> (False, r)
                             | d # r' \<Rightarrow> if d = CHR ''-'' then (True, r')
                                        else if d = CHR ''+'' then (False, r') else (False, r))
             in if ds \<noteq> [] \<and> list_all (isDigitIn 10) ds
                then Some (if neg then - int (digitsValue 10 0 ds) else int (digitsValue 10 0 ds))
                else None)
          else None)"

definition scaleDecimal :: "nat \<Rightarrow> int \<Rightarrow> rat" where
  "scaleDecimal m e = (if 0 \<le> e then of_nat m * 10 ^ nat e else of_nat m / 10 ^ nat (- e))"

text \<open>\<^verbatim>\<open>StrUnsignedDecimalLiteral\<close>: its value, None when the string is not one.\<close>

definition strUnsignedDecimalLiteral :: "string \<Rightarrow> jsnum option" where
  "strUnsignedDecimalLiteral s =
     (if s = ''Infinity'' then Some PosInfinity
      else
        let ip = takeWhile (isDigitIn 10) s; r = dropWhile (isDigitIn 10) s in
        (case r of
           [] \<Rightarrow> if ip = [] then None else Some (Finite (of_nat (digitsValue 10 0 ip)))
         | c # r' \<Rightarrow>
             if c = CHR ''.'' then
               (let fp = takeWhile (isDigitIn 10) r'; r'' = dropWhile (isDigitIn 10) r' in
                if ip = [] \<and> fp = [] then None
                else (case exponentPart r'' of
                        None \<Rightarrow> None
                      | Some e \<Rightarrow>
                          Some (Finite (scaleDecimal (digitsValue 10 0 (ip @ fp))
                                          (e - int (length fp))))))
             else if ip = [] then None
             else (case exponentPart r of
                     None \<Rightarrow> None
                   | Some e \<Rightarrow> Some (Finite (scaleDecimal (digitsValue 10 0 ip) e)))))"

definition negate :: "jsnum \<Rightarrow> jsnum" where
  "negate n = (case n of Finite q \<Rightarrow> Finite (- q) | PosInfinity \<Rightarrow> NegInfinity
                 | NegInfinity \<Rightarrow> PosInfinity | NaN \<Rightarrow> NaN)"

text \<open>\<^verbatim>\<open>NonDecimalIntegerLiteral\<close>: \<^verbatim>\<open>0x\<close>, \<^verbatim>\<open>0o\<close>, \<^verbatim>\<open>0b\<close> and their digits, unsigned.\<close>

definition nonDecimalIntegerLiteral :: "string \<Rightarrow> jsnum option" where
  "nonDecimalIntegerLiteral s =
     (case s of
        z # p # ds \<Rightarrow>
          if z = CHR ''0'' \<and> ds \<noteq> [] then
            (let base = (if p = CHR ''x'' \<or> p = CHR ''X'' then 16
                         else if p = CHR ''o'' \<or> p = CHR ''O'' then 8
                         else if p = CHR ''b'' \<or> p = CHR ''B'' then 2 else (0::nat))
             in if base \<noteq> 0 \<and> list_all (isDigitIn base) ds
                then Some (Finite (of_nat (digitsValue base 0 ds))) else None)
          else None
      | _ \<Rightarrow> None)"

text \<open>\<^verbatim>\<open>Number(s)\<close> for a string \<open>s\<close> (StringToNumber): white space is trimmed, the empty
  rest is 0, a rest outside the grammar is NaN.\<close>

definition Number :: "string \<Rightarrow> jsnum" where
  "Number s =
     (let t = trimString s in
      case t of
        [] \<Rightarrow> Finite 0
      | c # r \<Rightarrow>
          (case nonDecimalIntegerLiteral t of
             Some n \<Rightarrow> n
           | None \<Rightarrow>
               (case (if c = CHR ''-'' then map_option negate (strUnsignedDecimalLiteral r)
                      else if c = CHR ''+'' then strUnsignedDecimalLiteral r
                      else strUnsignedDecimalLiteral t) of
                  Some n \<Rightarrow> n
                | None \<Rightarrow> NaN)))"

definition isNaN :: "jsnum \<Rightarrow> bool" where
  "isNaN n = (n = NaN)"

subsection \<open>The toolkit's builders\<close>

text \<open>\<^verbatim>\<open>j.literal(v)\<close>: the builder checks the field's type (string, boolean, null,
  number or RegExp) and throws on anything else.\<close>

definition j_literal :: "jsval \<Rightarrow> error + jsval" where
  "j_literal v =
     (case v of
        VNull \<Rightarrow> Inr (Literal v)
      | VBool _ \<Rightarrow> Inr (Literal v)
      | VNum _ \<Rightarrow> Inr (Literal v)
      | VStr _ \<Rightarrow> Inr (Literal v)
      | VRegExp _ \<Rightarrow> Inr (Literal v)
      | _ \<Rightarrow> Inl BuilderError)"

definition truthy :: "jsval \<Rightarrow> bool" where
  "truthy v =
     (case v of
        VUndefined \<Rightarrow> False
      | VNull \<Rightarrow> False
      | VBool b \<Rightarrow> b
      | VNum n \<Rightarrow> n \<noteq> NaN \<and> n \<noteq> Finite 0
      | VStr s \<Rightarrow> s \<noteq> []
      | _ \<Rightarrow> True)"

text \<open>\<^verbatim>\<open>val.__paths\<close> is truthy: only a plain object can own the key.\<close>

definition has_paths :: "jsval \<Rightarrow> bool" where
  "has_paths v =
     (case v of
        VObj kvs \<Rightarrow> (case map_of kvs ''__paths'' of None \<Rightarrow> False | Some x \<Rightarrow> truthy x)
      | _ \<Rightarrow> False)"

section \<open>Scalar values as nodes\<close>

text \<open>\<^verbatim>\<open>createLiteral\<close> (lines 129-144): the three tests run one after the other on
  the original string.\<close>

definition createLiteral :: "jsval \<Rightarrow> error + jsval" where
  "createLiteral val =
     (case val of
        VStr s \<Rightarrow>
          (let l1 = (if s = ''true'' then VBool True else val);
               l2 = (if s = ''false'' then VBool False else l1);
               l3 = (if \<not> isNaN (Number s) then VNum (Number s) else l2)
           in j_literal l3)
      | _ \<Rightarrow> j_literal val)"

text \<open>\<^verbatim>\<open>createIdentifierOrLiteral\<close> (lines 155-185). Reading \<^verbatim>\<open>val.__paths\<close> of
  \<^verbatim>\<open>undefined\<close> or \<^verbatim>\<open>null\<close> throws; \<^verbatim>\<open>createExternalRegExp\<close> is not modelled.\<close>

definition createIdentifierOrLiteral :: "jsval \<Rightarrow> error + jsval" where
  "createIdentifierOrLiteral val =
     (case val of
        VStr s \<Rightarrow>
          if s = ''true'' then j_literal (VBool True)
          else if s = ''false'' then j_literal (VBool False)
          else if \<not> isNaN (Number s) then j_literal (VNum (Number s))
          else Inr (Identifier s)
      | VUndefined \<Rightarrow> Inl TypeError
      | VNull \<Rightarrow> Inl TypeError
      | _ \<Rightarrow> if has_paths val then Inl Unmodelled else j_literal val)"

section \<open>Building an object from a description\<close>

text \<open>Builders whose arguments the source does not fix by construction check them:
  \<^verbatim>\<open>j.property("init", key, value)\<close> wants expressions for key and value.\<close>

definition isExpression :: "jsval \<Rightarrow> bool" where
  "isExpression v =
     (case v of
        Identifier _ \<Rightarrow> True
      | Literal _ \<Rightarrow> True
      | ObjectExpression _ \<Rightarrow> True
      | ArrayExpression _ \<Rightarrow> True
      | NewExpression _ _ \<Rightarrow> True
      | MemberExpression _ _ \<Rightarrow> True
      | _ \<Rightarrow> False)"

definition j_property :: "jsval \<Rightarrow> jsval \<Rightarrow> error + jsval" where
  "j_property k v = (if isExpression k \<and> isExpression v then Inr (Property k v) else Inl BuilderError)"

text \<open>\<^verbatim>\<open>createObjectWithSuppliedProperty\<close> (lines 469-475).\<close>

definition createObjectWithSuppliedProperty :: "string \<Rightarrow> jsval \<Rightarrow> error + jsval" where
  "createObjectWithSuppliedProperty key prop = j_property (Identifier key) prop"

text \<open>\<^verbatim>\<open>createEmptyArrayProperty\<close> (lines 363-368).\<close>

definition createEmptyArrayProperty :: "string \<Rightarrow> jsval" where
  "createEmptyArrayProperty key = Property (Identifier key) (ArrayExpression [])"

text \<open>\<^verbatim>\<open>arr.value.elements.push(...)\<close>, for all the elements pushed onto the array property.\<close>

definition pushElements :: "jsval \<Rightarrow> jsval list \<Rightarrow> jsval" where
  "pushElements arr xs =
     (case arr of Property k (ArrayExpression es) \<Rightarrow> Property k (ArrayExpression (es @ xs)) | _ \<Rightarrow> arr)"

text \<open>\<^verbatim>\<open>p.properties.push(x)\<close>: only an object expression has the list.\<close>

definition pushProperty :: "jsval \<Rightarrow> jsval \<Rightarrow> error + jsval" where
  "pushProperty p x =
     (case p of ObjectExpression ps \<Rightarrow> Inr (ObjectExpression (ps @ [x])) | _ \<Rightarrow> Inl TypeError)"

text \<open>\<^verbatim>\<open>xs.forEach(f)\<close> where \<open>f\<close> mutates a state and may throw.\<close>

fun forEachE :: "('s \<Rightarrow> 'a \<Rightarrow> error + 's) \<Rightarrow> 's \<Rightarrow> 'a list \<Rightarrow> error + 's" where
  "forEachE f s [] = Inr s"
| "forEachE f s (x # xs) = (case f s x of Inl e \<Rightarrow> Inl e | Inr s' \<Rightarrow> forEachE f s' xs)"

lemma forEachE_cong [fundef_cong]:
  "xs = ys \<Longrightarrow> s = t \<Longrightarrow> (\<And>u x. x \<in> set ys \<Longrightarrow> f u x = g u x) \<Longrightarrow>
   forEachE f s xs = forEachE g t ys"
  by (induction ys arbitrary: xs s t) (auto split: sum.splits)

text \<open>\<^verbatim>\<open>prop.indexOf("inject") >= 0\<close>.\<close>

fun startsWith :: "string \<Rightarrow> string \<Rightarrow> bool" where
  "startsWith [] s = True"
| "startsWith (a # as) [] = False"
| "startsWith (a # as) (b # bs) = (a = b \<and> startsWith as bs)"

fun includesStr :: "string \<Rightarrow> string \<Rightarrow> bool" where
  "includesStr needle [] = (needle = [])"
| "includesStr needle (c # cs) = (startsWith needle (c # cs) \<or> includesStr needle cs)"

definition isInjectKey :: "string \<Rightarrow> bool" where
  "isInjectKey prop = includesStr ''inject'' prop"

text \<open>The decimal name of an array index.\<close>

function showNat :: "nat \<Rightarrow> string" where
  "showNat n = (if n < 10 then [char_of (48 + n)] else showNat (n div 10) @ [char_of (48 + n mod 10)])"
  by pat_completeness auto
termination
  by (relation "measure id") auto

declare showNat.simps [simp del]

text \<open>\<^verbatim>\<open>Object.keys(obj)\<close>, each key with \<^verbatim>\<open>obj[key]\<close>. It throws on \<^verbatim>\<open>undefined\<close> and
  \<^verbatim>\<open>null\<close>, is empty for a boolean, a number and a regular expression, and lists the
  indices of an array or a string. The keys of a toolkit node are not modelled.\<close>

definition objectEntries :: "jsval \<Rightarrow> error + (string \<times> jsval) list" where
  "objectEntries obj =
     (case obj of
        VUndefined \<Rightarrow> Inl TypeError
      | VNull \<Rightarrow> Inl TypeError
      | VBool _ \<Rightarrow> Inr []
      | VNum _ \<Rightarrow> Inr []
      | VRegExp _ \<Rightarrow> Inr []
      | VStr s \<Rightarrow> Inr (zip (map showNat [0 ..< length s]) (map (\<lambda>c. VStr [c]) s))
      | VArr xs \<Rightarrow> Inr (zip (map showNat [0 ..< length xs]) xs)
      | VObj kvs \<Rightarrow> Inr kvs
      | _ \<Rightarrow> Inl Unmodelled)"

text \<open>\<^verbatim>\<open>typeof v !== "object" || v instanceof RegExp\<close>.\<close>

definition isScalar :: "jsval \<Rightarrow> bool" where
  "isScalar v =
     (case v of
        VUndefined \<Rightarrow> True
      | VBool _ \<Rightarrow> True
      | VNum _ \<Rightarrow> True
      | VStr _ \<Rightarrow> True
      | VRegExp _ \<Rightarrow> True
      | _ \<Rightarrow> False)"

definition isArray :: "jsval \<Rightarrow> bool" where
  "isArray v = (case v of VArr _ \<Rightarrow> True | _ \<Rightarrow> False)"

definition isString :: "jsval \<Rightarrow> bool" where
  "isString v = (case v of VStr _ \<Rightarrow> True | _ \<Rightarrow> False)"

text \<open>A nested mapping: a plain object.\<close>

definition isMapping :: "jsval \<Rightarrow> bool" where
  "isMapping v = (case v of VObj _ \<Rightarrow> True | _ \<Rightarrow> False)"

text \<open>The items of a sequence.\<close>

definition arrayItems :: "jsval \<Rightarrow> jsval list" where
  "arrayItems v = (case v of VArr xs \<Rightarrow> xs | _ \<Rightarrow> [])"

lemma objectEntries_size:
  "objectEntries obj = Inr es \<Longrightarrow> (k, v) \<in> set es \<Longrightarrow> \<not> isScalar v \<Longrightarrow> size v < size obj"
proof (cases obj)
  case (VStr s)
  assume "objectEntries obj = Inr es" "(k, v) \<in> set es" "\<not> isScalar v"
  with VStr show ?thesis
    by (auto simp: objectEntries_def isScalar_def dest!: set_zip_rightD)
next
  case (VArr xs)
  assume "objectEntries obj = Inr es" "(k, v) \<in> set es"
  with VArr have "v \<in> set xs"
    by (auto simp: objectEntries_def dest: set_zip_rightD)
  then have "size v < Suc (size_list size xs)"
    by (induction xs) auto
  with VArr show ?thesis by simp
next
  case (VObj kvs)
  assume "objectEntries obj = Inr es" "(k, v) \<in> set es"
  with VObj have "(k, v) \<in> set kvs"
    by (simp add: objectEntries_def)
  then have "size v < Suc (size_list (size_prod (\<lambda>_. 0) size) kvs)"
    by (induction kvs) auto
  with VObj show ?thesis by simp
qed (auto simp: objectEntries_def)

text \<open>
  \<^verbatim>\<open>createArrayWithChildren\<close> (lines 381-408) and \<^verbatim>\<open>loopThroughObjects\<close> (lines 420-457).
  The target \<open>p\<close> is mutated in the source and returned here. With \<open>shouldDropKeys\<close>
  unset the source reads \<^verbatim>\<open>subProps[key]\<close>; that is modelled for a plain object only.
  The source wraps the empty \<^verbatim>\<open>objectBlock\<close> in its property before it fills it; here the
  block is filled first, which gives the same tree. Where a call would throw both while
  it reads the list to push onto and while it builds the pushed node, the error of the
  node is the one returned.
\<close>

function createArrayWithChildren :: "string \<Rightarrow> jsval \<Rightarrow> bool \<Rightarrow> error + jsval"
  and loopThroughObjects :: "jsval \<Rightarrow> jsval \<Rightarrow> error + jsval" where
  "createArrayWithChildren key subProps shouldDropKeys =
     (if shouldDropKeys then
        (case subProps of
           VArr xs \<Rightarrow>
             (case forEachE
                     (\<lambda>elements subProperty.
                        if \<not> isString subProperty then
                          (case loopThroughObjects (ObjectExpression []) subProperty of
                             Inl e \<Rightarrow> Inl e
                           | Inr objectOfArray \<Rightarrow> Inr (elements @ [objectOfArray]))
                        else
                          (case createIdentifierOrLiteral subProperty of
                             Inl e \<Rightarrow> Inl e
                           | Inr n \<Rightarrow> Inr (elements @ [n])))
                     [] xs of
                Inl e \<Rightarrow> Inl e
              | Inr elements \<Rightarrow> Inr (pushElements (createEmptyArrayProperty key) elements))
         | _ \<Rightarrow> Inl TypeError)
      else
        (case subProps of
           VObj kvs \<Rightarrow>
             (case objectEntries (case map_of kvs key of None \<Rightarrow> VUndefined | Some v \<Rightarrow> v) of
                Inl e \<Rightarrow> Inl e
              | Inr es \<Rightarrow>
                  (case forEachE
                          (\<lambda>elements (subProperty, v).
                             case createIdentifierOrLiteral v of
                               Inl e \<Rightarrow> Inl e
                             | Inr n \<Rightarrow> Inr (elements @ [n]))
                          [] es of
                     Inl e \<Rightarrow> Inl e
                   | Inr elements \<Rightarrow> Inr (pushElements (createEmptyArrayProperty key) elements)))
         | VUndefined \<Rightarrow> Inl TypeError
         | VNull \<Rightarrow> Inl TypeError
         | _ \<Rightarrow> Inl Unmodelled))"
| "loopThroughObjects p obj =
     (case objectEntries obj of
        Inl e \<Rightarrow> Inl e
      | Inr es \<Rightarrow>
          forEachE
            (\<lambda>p (prop, v).
               if isInjectKey prop then
                 (case createIdentifierOrLiteral v of
                    Inl e \<Rightarrow> Inl e
                  | Inr propertyExpression \<Rightarrow> pushProperty p propertyExpression)
               else if isScalar v then
                 (case createIdentifierOrLiteral v of
                    Inl e \<Rightarrow> Inl e
                  | Inr n \<Rightarrow>
                      (case createObjectWithSuppliedProperty prop n of
                         Inl e \<Rightarrow> Inl e
                       | Inr x \<Rightarrow> pushProperty p x))
               else if isArray v then
                 (case createArrayWithChildren prop v True of
                    Inl e \<Rightarrow> Inl e
                  | Inr arrayProp \<Rightarrow> pushProperty p arrayProp)
               else
                 (case loopThroughObjects (ObjectExpression []) v of
                    Inl e \<Rightarrow> Inl e
                  | Inr objectBlock \<Rightarrow>
                      (case createObjectWithSuppliedProperty prop objectBlock of
                         Inl e \<Rightarrow> Inl e
                       | Inr propertyOfBlock \<Rightarrow> pushProperty p propertyOfBlock)))
            p es)"
  by pat_completeness auto
termination
proof (relation "measure (\<lambda>x. case x of Inl (key, subProps, b) \<Rightarrow> 2 * size subProps + 1
                                     | Inr (p, obj) \<Rightarrow> 2 * size obj)")
  show "wf (measure (\<lambda>x. case x of Inl (key, subProps, b) \<Rightarrow> 2 * size subProps + 1
                                     | Inr (p, obj) \<Rightarrow> 2 * size obj))"
    by simp
next
  fix key :: string and subProps :: jsval and shouldDropKeys :: bool
    and xs :: "jsval list" and elements :: "jsval list" and subProperty :: jsval
  assume "subProps = VArr xs" "subProperty \<in> set xs"
  then have "size subProperty < size subProps"
    by (induction xs arbitrary: subProps) auto
  then show "(Inr (ObjectExpression [], subProperty), Inl (key, subProps, shouldDropKeys))
      \<in> measure (\<lambda>x. case x of Inl (key, subProps, b) \<Rightarrow> 2 * size subProps + 1
                                 | Inr (p, obj) \<Rightarrow> 2 * size obj)"
    by simp
next
  fix p obj :: jsval and es :: "(string \<times> jsval) list" and p' :: jsval
    and x :: "string \<times> jsval" and k :: string and v :: jsval
  assume "objectEntries obj = Inr es" "x \<in> set es" "(k, v) = x" "\<not> isScalar v"
  then have "size v < size obj"
    using objectEntries_size by metis
  then show "(Inl (k, v, True), Inr (p, obj))
      \<in> measure (\<lambda>x. case x of Inl (key, subProps, b) \<Rightarrow> 2 * size subProps + 1
                                 | Inr (p, obj) \<Rightarrow> 2 * size obj)"
    by simp
next
  fix p obj :: jsval and es :: "(string \<times> jsval) list" and p' :: jsval
    and x :: "string \<times> jsval" and k :: string and v :: jsval
  assume "objectEntries obj = Inr es" "x \<in> set es" "(k, v) = x" "\<not> isScalar v"
  then have "size v < size obj"
    using objectEntries_size by metis
  then show "(Inr (ObjectExpression [], v), Inr (p, obj))
      \<in> measure (\<lambda>x. case x of Inl (key, subProps, b) \<Rightarrow> 2 * size subProps + 1
                                 | Inr (p, obj) \<Rightarrow> 2 * size obj)"
    by simp
qed

declare createArrayWithChildren.simps [simp del]

declare loopThroughObjects.simps [simp del]

section \<open>Reading a built object back\<close>

text \<open>\<^verbatim>\<open>prop.key.name\<close>, as \<^verbatim>\<open>safeTraverse(prop, ["key", "name"])\<close> reads it: the name of a
  property whose key is an identifier, nothing for any other node.\<close>

definition keyName :: "jsval \<Rightarrow> string option" where
  "keyName n = (case n of Property (Identifier s) _ \<Rightarrow> Some s | _ \<Rightarrow> None)"

text \<open>The primitives of a description: strings, numbers and booleans.\<close>

definition isPrimitive :: "jsval \<Rightarrow> bool" where
  "isPrimitive v = (case v of VBool _ \<Rightarrow> True | VNum _ \<Rightarrow> True | VStr _ \<Rightarrow> True | _ \<Rightarrow> False)"

text \<open>The own entries of a mapping, in the order of their enumeration; a sequence read as
  an object has its indices as keys.\<close>

definition entriesOf :: "jsval \<Rightarrow> (string \<times> jsval) list" where
  "entriesOf d =
     (case d of
        VObj kvs \<Rightarrow> kvs
      | VArr xs \<Rightarrow> zip (map showNat [0 ..< length xs]) xs
      | _ \<Rightarrow> [])"

lemma entriesOf_size: "kv \<in> set (entriesOf d) \<Longrightarrow> size (snd kv) < size d"
proof (cases d)
  case (VArr xs)
  assume "kv \<in> set (entriesOf d)"
  with VArr have "snd kv \<in> set xs"
    by (cases kv) (auto simp: entriesOf_def dest: set_zip_rightD)
  then have "size (snd kv) \<le> size_list size xs" by (rule size_list_estimation') simp
  with VArr show ?thesis by simp
next
  case (VObj kvs)
  assume "kv \<in> set (entriesOf d)"
  with VObj have "kv \<in> set kvs" by (simp add: entriesOf_def)
  then have "size_prod (\<lambda>_. 0) size kv \<le> size_list (size_prod (\<lambda>_. 0) size) kvs"
    by (rule size_list_estimation') simp
  with VObj show ?thesis by (cases kv) simp
qed (simp_all add: entriesOf_def)

lemma arrayItems_size: "x \<in> set (arrayItems v) \<Longrightarrow> size x < size v"
proof (cases v)
  case (VArr xs)
  assume "x \<in> set (arrayItems v)"
  with VArr have "x \<in> set xs" by (simp add: arrayItems_def)
  then have "size x \<le> size_list size xs" by (rule size_list_estimation') simp
  with VArr show ?thesis by simp
qed (simp_all add: arrayItems_def)

text \<open>The descriptions of the claim: primitives, sequences and nested mappings. A key
  carrying the marker \<^verbatim>\<open>inject\<close> holds a primitive; an item of a sequence is a string, a
  mapping or a sequence (no number and no boolean), and an item that is not a string is
  read as an object, a sequence by its indices.\<close>

function wfObject :: "jsval \<Rightarrow> bool"
  and wfEntry :: "string \<times> jsval \<Rightarrow> bool"
  and wfValue :: "jsval \<Rightarrow> bool"
  and wfItem :: "jsval \<Rightarrow> bool" where
  "wfObject d = ((isMapping d \<or> isArray d) \<and> list_all wfEntry (entriesOf d))"
| "wfEntry (k, v) = (if isInjectKey k then isPrimitive v else wfValue v)"
| "wfValue v =
     (if isArray v then list_all wfItem (arrayItems v)
      else if isMapping v then wfObject v
      else isPrimitive v)"
| "wfItem x = (isString x \<or> wfObject x)"
  by pat_completeness auto
termination
  by (relation "measure (\<lambda>x. case x of
                   Inl (Inl d) \<Rightarrow> 4 * size d
                 | Inl (Inr kv) \<Rightarrow> 4 * size (snd kv) + 3
                 | Inr (Inl v) \<Rightarrow> 4 * size v + 2
                 | Inr (Inr x) \<Rightarrow> 4 * size x + 1)")
    (auto dest: entriesOf_size arrayItems_size)

declare wfObject.simps [simp del] wfEntry.simps [simp del] wfValue.simps [simp del]
  wfItem.simps [simp del]

text \<open>The coercion rule in the specification's words: the value node of a primitive. The
  string \<^verbatim>\<open>"true"\<close> is the boolean literal true, \<^verbatim>\<open>"false"\<close> the boolean literal false, a
  string that parses as a number the numeric literal, any other string an identifier
  (the destination asks for a bare symbol); a number or a boolean is its own literal.\<close>

definition valueNode_spec :: "jsval \<Rightarrow> jsval" where
  "valueNode_spec v =
     (case v of
        VStr s \<Rightarrow>
          if s = ''true'' then Literal (VBool True)
          else if s = ''false'' then Literal (VBool False)
          else if \<not> isNaN (Number s) then Literal (VNum (Number s))
          else Identifier s
      | _ \<Rightarrow> Literal v)"

text \<open>The body of the loop of \<^verbatim>\<open>loopThroughObjects\<close>, for one key and its value.\<close>

definition loopEntry :: "jsval \<Rightarrow> string \<times> jsval \<Rightarrow> error + jsval" where
  "loopEntry p kv =
     (case kv of (k, v) \<Rightarrow>
      if isInjectKey k then
        (case createIdentifierOrLiteral v of
           Inl e \<Rightarrow> Inl e
         | Inr propertyExpression \<Rightarrow> pushProperty p propertyExpression)
      else if isScalar v then
        (case createIdentifierOrLiteral v of
           Inl e \<Rightarrow> Inl e
         | Inr n \<Rightarrow>
             (case createObjectWithSuppliedProperty k n of
                Inl e \<Rightarrow> Inl e
              | Inr x \<Rightarrow> pushProperty p x))
      else if isArray v then
        (case createArrayWithChildren k v True of
           Inl e \<Rightarrow> Inl e
         | Inr arrayProp \<Rightarrow> pushProperty p arrayProp)
      else
        (case loopThroughObjects (ObjectExpression []) v of
           Inl e \<Rightarrow> Inl e
         | Inr objectBlock \<Rightarrow>
             (case createObjectWithSuppliedProperty k objectBlock of
                Inl e \<Rightarrow> Inl e
              | Inr propertyOfBlock \<Rightarrow> pushProperty p propertyOfBlock)))"

text \<open>The object the claim expects of a description, entry by entry. A key with the
  marker gives the bare value node of its primitive; any other key gives a property named
  by the key. The value of the property is the value node of a primitive, the object of a
  nested mapping, and for a sequence the array expression of what its items become, in
  their order: a string item its value node, any other item its object.\<close>

function objectNode_spec :: "jsval \<Rightarrow> jsval"
  and entryNode_spec :: "string \<times> jsval \<Rightarrow> jsval"
  and propertyNode_spec :: "jsval \<Rightarrow> jsval"
  and itemNode_spec :: "jsval \<Rightarrow> jsval" where
  "objectNode_spec d = ObjectExpression (map entryNode_spec (entriesOf d))"
| "entryNode_spec (k, v) =
     (if isInjectKey k then valueNode_spec v
      else Property (Identifier k) (propertyNode_spec v))"
| "propertyNode_spec v =
     (if isArray v then ArrayExpression (map itemNode_spec (arrayItems v))
      else if isMapping v then objectNode_spec v
      else valueNode_spec v)"
| "itemNode_spec x = (if isString x then valueNode_spec x else objectNode_spec x)"
  by pat_completeness auto
termination
  by (relation "measure (\<lambda>x. case x of
                   Inl (Inl d) \<Rightarrow> 4 * size d
                 | Inl (Inr kv) \<Rightarrow> 4 * size (snd kv) + 3
                 | Inr (Inl v) \<Rightarrow> 4 * size v + 2
                 | Inr (Inr x) \<Rightarrow> 4 * size x + 1)")
    (auto dest: entriesOf_size arrayItems_size)

declare objectNode_spec.simps [simp del] entryNode_spec.simps [simp del]
  propertyNode_spec.simps [simp del] itemNode_spec.simps [simp del]

section \<open>Trees, paths and the toolkit's \<^verbatim>\<open>find\<close>\<close>

text \<open>
  The toolkit visits the fields of a node in the order of its type definition and skips the
  array between a node and its children, so a path is the list of child positions from the
  root. A raw array or object standing in a node position is visited through its values.
\<close>

definition children :: "jsval \<Rightarrow> jsval list" where
  "children n =
     (case n of
        Property k v \<Rightarrow> [k, v]
      | ObjectExpression ps \<Rightarrow> ps
      | ArrayExpression es \<Rightarrow> es
      | NewExpression c as \<Rightarrow> c # as
      | MemberExpression ob pr \<Rightarrow> [ob, pr]
      | VArr xs \<Rightarrow> xs
      | VObj kvs \<Rightarrow> map snd kvs
      | _ \<Rightarrow> [])"

text \<open>The node with its children replaced, position by position.\<close>

definition withChildren :: "jsval \<Rightarrow> jsval list \<Rightarrow> jsval" where
  "withChildren n cs =
     (case n of
        Property k v \<Rightarrow> Property (cs ! 0) (cs ! 1)
      | ObjectExpression ps \<Rightarrow> ObjectExpression cs
      | ArrayExpression es \<Rightarrow> ArrayExpression cs
      | NewExpression c as \<Rightarrow> NewExpression (hd cs) (tl cs)
      | MemberExpression ob pr \<Rightarrow> MemberExpression (cs ! 0) (cs ! 1)
      | VArr xs \<Rightarrow> VArr cs
      | VObj kvs \<Rightarrow> VObj (zip (map fst kvs) cs)
      | _ \<Rightarrow> n)"

lemma children_weight: "(\<Sum>c\<leftarrow>children n. 4 * size c + 2) < 4 * size n + 1"
proof -
  have list: "(\<Sum>c\<leftarrow>xs. 4 * size c + 2) + 2 < 4 * size_list size xs + 5" for xs :: "jsval list"
    by (induction xs) auto
  have pairs: "(\<Sum>c\<leftarrow>map snd kvs. 4 * size c + 2) + 2 < 4 * size_list (size_prod (\<lambda>_. 0) size) kvs + 5"
    for kvs :: "(string \<times> jsval) list"
    by (induction kvs) auto
  show ?thesis
    using list pairs
    by (cases n) (auto simp: children_def intro: less_trans add_less_le_mono)
qed

text \<open>The paths of all proper descendants, in the order of the visit (a node before its
  children, children from left to right); \<open>descendantsFrom i cs\<close> visits the children \<open>cs\<close>
  that stand at the positions from \<open>i\<close> on.\<close>

function descendants :: "jsval \<Rightarrow> nat list list"
  and descendantsFrom :: "nat \<Rightarrow> jsval list \<Rightarrow> nat list list" where
  "descendants n = descendantsFrom 0 (children n)"
| "descendantsFrom i [] = []"
| "descendantsFrom i (c # cs) = ([i] # map ((#) i) (descendants c)) @ descendantsFrom (Suc i) cs"
  by pat_completeness auto
termination
  by (relation "measure (\<lambda>x. case x of Inl n \<Rightarrow> 4 * size n + 1
                                | Inr (i, cs) \<Rightarrow> (\<Sum>c\<leftarrow>cs. 4 * size c + 2))")
    (use children_weight in auto)

declare descendants.simps [simp del]

fun subnode :: "jsval \<Rightarrow> nat list \<Rightarrow> jsval option" where
  "subnode n [] = Some n"
| "subnode n (i # p) = (if i < length (children n) then subnode (children n ! i) p else None)"

text \<open>An in-place change \<open>f\<close> of the node at a path.\<close>

fun updateAt :: "(jsval \<Rightarrow> error + jsval) \<Rightarrow> nat list \<Rightarrow> jsval \<Rightarrow> error + jsval" where
  "updateAt f [] n = f n"
| "updateAt f (i # p) n =
     (if i < length (children n) then
        (case updateAt f p (children n ! i) of
           Inl e \<Rightarrow> Inl e
         | Inr c \<Rightarrow> Inr (withChildren n ((children n)[i := c])))
      else Inl TypeError)"

text \<open>\<^verbatim>\<open>j(root).find(type)\<close>: the descendants of the given kind.\<close>

definition findPaths :: "(jsval \<Rightarrow> bool) \<Rightarrow> jsval \<Rightarrow> nat list list" where
  "findPaths isKind tree =
     filter (\<lambda>p. case subnode tree p of None \<Rightarrow> False | Some n \<Rightarrow> isKind n) (descendants tree)"

definition isObjectExpression :: "jsval \<Rightarrow> bool" where
  "isObjectExpression n = (case n of ObjectExpression _ \<Rightarrow> True | _ \<Rightarrow> False)"

definition isNewExpression :: "jsval \<Rightarrow> bool" where
  "isNewExpression n = (case n of NewExpression _ _ \<Rightarrow> True | _ \<Rightarrow> False)"

definition isIdentifier :: "jsval \<Rightarrow> bool" where
  "isIdentifier n = (case n of Identifier _ \<Rightarrow> True | _ \<Rightarrow> False)"

section \<open>Plugin declarations\<close>

text \<open>Reading \<^verbatim>\<open>.name\<close>: it throws on \<^verbatim>\<open>undefined\<close> and \<^verbatim>\<open>null\<close>, is the name of an identifier,
  and \<^verbatim>\<open>undefined\<close> (None) on any other node or primitive. A plain object is not modelled.\<close>

definition nameOf :: "jsval \<Rightarrow> error + string option" where
  "nameOf n =
     (case n of
        Identifier s \<Rightarrow> Inr (Some s)
      | VUndefined \<Rightarrow> Inl TypeError
      | VNull \<Rightarrow> Inl TypeError
      | VObj _ \<Rightarrow> Inl Unmodelled
      | _ \<Rightarrow> Inr None)"

text \<open>\<^verbatim>\<open>[a, b].join(".")\<close>: \<^verbatim>\<open>undefined\<close> joins as the empty string.\<close>

definition joinDot :: "string option \<Rightarrow> string option \<Rightarrow> string" where
  "joinDot a b = (case a of None \<Rightarrow> [] | Some s \<Rightarrow> s) @ ''.'' @ (case b of None \<Rightarrow> [] | Some s \<Rightarrow> s)"

text \<open>\<^verbatim>\<open>memberExpressionToPathString\<close> (lines 31-38).\<close>

fun memberExpressionToPathString :: "jsval \<Rightarrow> error + string option" where
  "memberExpressionToPathString (MemberExpression ob pr) =
     (if truthy ob then
        (case memberExpressionToPathString ob of
           Inl e \<Rightarrow> Inl e
         | Inr a \<Rightarrow> (case nameOf pr of Inl e \<Rightarrow> Inl e | Inr b \<Rightarrow> Inr (Some (joinDot a b))))
      else Inr None)"
| "memberExpressionToPathString (Identifier s) = Inr (Some s)"
| "memberExpressionToPathString VUndefined = Inl TypeError"
| "memberExpressionToPathString VNull = Inl TypeError"
| "memberExpressionToPathString (VObj kvs) = Inl Unmodelled"
| "memberExpressionToPathString n = Inr None"

text \<open>\<^verbatim>\<open>pathsToMemberExpression\<close> (lines 41-54); \<open>VNull\<close> is the \<^verbatim>\<open>null\<close> of the empty list.\<close>

fun pathsToMemberExpression :: "string list \<Rightarrow> jsval" where
  "pathsToMemberExpression [] = VNull"
| "pathsToMemberExpression [x] = Identifier x"
| "pathsToMemberExpression (x # y # rest) =
     MemberExpression (pathsToMemberExpression (y # rest)) (pathsToMemberExpression [x])"

text \<open>\<^verbatim>\<open>pluginName.split(".")\<close>.\<close>

fun splitDot :: "string \<Rightarrow> string list" where
  "splitDot [] = [[]]"
| "splitDot (c # cs) =
     (if c = CHR ''.'' then [] # splitDot cs
      else (case splitDot cs of [] \<Rightarrow> [[c]] | w # ws \<Rightarrow> (c # w) # ws))"

text \<open>\<^verbatim>\<open>xs.filter(f)\<close> where \<open>f\<close> may throw.\<close>

fun filterE :: "('a \<Rightarrow> error + bool) \<Rightarrow> 'a list \<Rightarrow> error + 'a list" where
  "filterE f [] = Inr []"
| "filterE f (x # xs) =
     (case f x of
        Inl e \<Rightarrow> Inl e
      | Inr b \<Rightarrow> (case filterE f xs of Inl e \<Rightarrow> Inl e | Inr ys \<Rightarrow> Inr (if b then x # ys else ys)))"

text \<open>\<^verbatim>\<open>findPluginsByName\<close> (lines 67-78): the paths of the constructor calls below the
  root whose callee reads as one of the names.\<close>

definition findPluginsByName :: "jsval \<Rightarrow> string list \<Rightarrow> error + nat list list" where
  "findPluginsByName node pluginNamesArray =
     filterE
       (\<lambda>p. case subnode node p of
               Some (NewExpression callee as) \<Rightarrow>
                 (case memberExpressionToPathString callee of
                    Inl e \<Rightarrow> Inl e
                  | Inr s \<Rightarrow> Inr (list_ex (\<lambda>plugin. s = Some plugin) pluginNamesArray))
             | _ \<Rightarrow> Inr False)
       (findPaths isNewExpression node)"

text \<open>\<^verbatim>\<open>createProperty\<close> (lines 108-118): the key goes through
  \<^verbatim>\<open>createIdentifierOrLiteral\<close>, the value through \<^verbatim>\<open>createLiteral\<close>.\<close>

definition createProperty :: "jsval \<Rightarrow> jsval \<Rightarrow> error + jsval" where
  "createProperty key val =
     (case createIdentifierOrLiteral key of
        Inl e \<Rightarrow> Inl e
      | Inr k \<Rightarrow> (case createLiteral val of Inl e \<Rightarrow> Inl e | Inr v \<Rightarrow> j_property k v))"

text \<open>\<^verbatim>\<open>xs.map(f)\<close> where \<open>f\<close> may throw.\<close>

fun mapE :: "('a \<Rightarrow> error + 'b) \<Rightarrow> 'a list \<Rightarrow> error + 'b list" where
  "mapE f [] = Inr []"
| "mapE f (x # xs) =
     (case f x of
        Inl e \<Rightarrow> Inl e
      | Inr y \<Rightarrow> (case mapE f xs of Inl e \<Rightarrow> Inl e | Inr ys \<Rightarrow> Inr (y # ys)))"

text \<open>Lines 208-213: \<^verbatim>\<open>optionsProps\<close>, left undefined (None) when \<^verbatim>\<open>options\<close> is falsy.\<close>

definition createOptionsProps :: "jsval \<Rightarrow> error + jsval list option" where
  "createOptionsProps options =
     (if truthy options then
        (case objectEntries options of
           Inl e \<Rightarrow> Inl e
         | Inr es \<Rightarrow>
             (case mapE (\<lambda>(key, v). createProperty (VStr key) v) es of
                Inl e \<Rightarrow> Inl e
              | Inr ps \<Rightarrow> Inr (Some ps)))
      else Inr None)"

text \<open>Reading \<^verbatim>\<open>.value\<close> of a node: a literal has one, a property has its value node, any
  other node gives \<^verbatim>\<open>undefined\<close>.\<close>

definition valueOf :: "jsval \<Rightarrow> jsval" where
  "valueOf n = (case n of Literal l \<Rightarrow> l | Property k v \<Rightarrow> v | _ \<Rightarrow> VUndefined)"

definition keyOf :: "jsval \<Rightarrow> jsval" where
  "keyOf n = (case n of Property k v \<Rightarrow> k | _ \<Rightarrow> VUndefined)"

text \<open>Lines 230-232: the identifiers below the properties of \<open>obj\<close> whose name is strictly
  equal to \<^verbatim>\<open>opt.key.value\<close>.\<close>

definition existingProps :: "jsval \<Rightarrow> jsval \<Rightarrow> nat list list" where
  "existingProps obj opt =
     filter (\<lambda>p. case subnode obj p of
                    Some (Identifier name) \<Rightarrow> valueOf (keyOf opt) = VStr name
                  | _ \<Rightarrow> False)
       (findPaths isIdentifier obj)"

text \<open>Lines 228-243, for one option: \<open>q\<close> is the path of the object expression whose
  properties are \<^verbatim>\<open>currentProps\<close>. The replacement through \<^verbatim>\<open>path.parent\<close> is not modelled;
  \<open>existingProps_createProperty\<close> below shows that no option made by \<^verbatim>\<open>createProperty\<close>
  reaches it.\<close>

definition mergeOption :: "nat list \<Rightarrow> jsval \<Rightarrow> jsval \<Rightarrow> error + jsval" where
  "mergeOption q call opt =
     (case subnode call q of
        None \<Rightarrow> Inl TypeError
      | Some obj \<Rightarrow>
          if existingProps obj opt \<noteq> [] then Inl Unmodelled
          else updateAt (\<lambda>n. pushProperty n opt) q call)"

text \<open>Lines 219-248, for one matching call.\<close>

definition updatePlugin :: "jsval list \<Rightarrow> jsval \<Rightarrow> error + jsval" where
  "updatePlugin optionsProps call =
     (case call of
        NewExpression callee args \<Rightarrow>
          if args \<noteq> [] then
            (case findPaths isObjectExpression call of
               [] \<Rightarrow> Inl EmptyCollection
             | q # _ \<Rightarrow> forEachE (mergeOption q) call optionsProps)
          else Inr (NewExpression callee (args @ [ObjectExpression optionsProps]))
      | _ \<Rightarrow> Inl TypeError)"

text \<open>\<^verbatim>\<open>rootNodePath.value.elements.push(x)\<close>.\<close>

definition pushElement :: "jsval \<Rightarrow> jsval \<Rightarrow> error + jsval" where
  "pushElement n x =
     (case n of ArrayExpression es \<Rightarrow> Inr (ArrayExpression (es @ [x])) | _ \<Rightarrow> Inl TypeError)"

text \<open>\<^verbatim>\<open>createOrUpdatePluginByName\<close> (lines 199-261). The tree below \<open>rootNode\<close> is mutated
  in the source and returned here.\<close>

definition createOrUpdatePluginByName :: "jsval \<Rightarrow> string \<Rightarrow> jsval \<Rightarrow> error + jsval" where
  "createOrUpdatePluginByName rootNode pluginName options =
     (case findPluginsByName rootNode [pluginName] of
        Inl e \<Rightarrow> Inl e
      | Inr pluginInstancePath \<Rightarrow>
          (case createOptionsProps options of
             Inl e \<Rightarrow> Inl e
           | Inr optionsProps \<Rightarrow>
               if pluginInstancePath \<noteq> [] then
                 forEachE
                   (\<lambda>tree path.
                      case optionsProps of
                        None \<Rightarrow> Inr tree
                      | Some props \<Rightarrow> updateAt (updatePlugin props) path tree)
                   rootNode pluginInstancePath
               else
                 (let argumentsArray = (case optionsProps of
                                          None \<Rightarrow> []
                                        | Some props \<Rightarrow> [ObjectExpression props]);
                      loaderPluginInstance =
                        NewExpression (pathsToMemberExpression (rev (splitDot pluginName)))
                          argumentsArray
                  in pushElement rootNode loaderPluginInstance)))"

section \<open>Plugin declarations: what the specification expects\<close>

text \<open>\<^verbatim>\<open>xs.join(".")\<close> for a list of strings.\<close>

fun joinDots :: "string list \<Rightarrow> string" where
  "joinDots [] = []"
| "joinDots [x] = x"
| "joinDots (x # y # r) = x @ ''.'' @ joinDots (y # r)"

text \<open>The values the literal builder accepts (the cases of \<^verbatim>\<open>j_literal\<close> that return a
  node): a string, a number, a boolean, \<^verbatim>\<open>null\<close> or a regular expression.\<close>

definition isLiteralValue :: "jsval \<Rightarrow> bool" where
  "isLiteralValue v =
     (case v of
        VNull \<Rightarrow> True
      | VBool _ \<Rightarrow> True
      | VNum _ \<Rightarrow> True
      | VStr _ \<Rightarrow> True
      | VRegExp _ \<Rightarrow> True
      | _ \<Rightarrow> False)"

text \<open>The coercion rule in the specification's words, for a destination that takes a
  literal: \<^verbatim>\<open>"true"\<close> and \<^verbatim>\<open>"false"\<close> are booleans, a string that parses as a number is that
  number, any other string stays a string; a number or a boolean is itself.\<close>

definition literalValue_spec :: "jsval \<Rightarrow> jsval" where
  "literalValue_spec v =
     (case v of
        VStr s \<Rightarrow>
          if s = ''true'' then VBool True
          else if s = ''false'' then VBool False
          else if \<not> isNaN (Number s) then VNum (Number s)
          else VStr s
      | _ \<Rightarrow> v)"

text \<open>The property built from one entry of an options description with primitive values.\<close>

definition optionProperty_spec :: "string \<times> jsval \<Rightarrow> jsval" where
  "optionProperty_spec kv = Property (valueNode_spec (VStr (fst kv))) (Literal (literalValue_spec (snd kv)))"

text \<open>A callee that is a dotted name: identifiers joined by member access.\<close>

fun isDottedName :: "jsval \<Rightarrow> bool" where
  "isDottedName (Identifier s) = True"
| "isDottedName (MemberExpression ob pr) = (isDottedName ob \<and> isDottedName pr)"
| "isDottedName n = False"

text \<open>The found case in the specification's words: a call without arguments gains the
  options object as its single argument; a call whose first argument is an object
  expression has the option properties appended to that object.\<close>

definition upsertCall_spec :: "jsval list \<Rightarrow> jsval \<Rightarrow> jsval" where
  "upsertCall_spec props call =
     (case call of
        NewExpression callee [] \<Rightarrow> NewExpression callee [ObjectExpression props]
      | NewExpression callee (ObjectExpression ps # rest) \<Rightarrow>
          NewExpression callee (ObjectExpression (ps @ props) # rest)
      | _ \<Rightarrow> call)"

text \<open>The two shapes of an existing call that the found case is specified for.\<close>

definition upsertable :: "jsval \<Rightarrow> bool" where
  "upsertable call =
     (case call of
        NewExpression callee [] \<Rightarrow> True
      | NewExpression callee (ObjectExpression ps # rest) \<Rightarrow> isDottedName callee
      | _ \<Rightarrow> False)"

section \<open>Merging a description into a named sub-object\<close>

text \<open>\<^verbatim>\<open>prop.key.name\<close> read without a guard (line 344): a node without a key makes it throw.\<close>

definition keyNameOf :: "jsval \<Rightarrow> error + string option" where
  "keyNameOf n =
     (case n of
        Property k v \<Rightarrow> nameOf k
      | VObj _ \<Rightarrow> Inl Unmodelled
      | _ \<Rightarrow> Inl TypeError)"

text \<open>\<^verbatim>\<open>existingProp[0].value = value\<close>: the first property of the given name gets the value,
  None when no property has the name.\<close>

fun overwriteFirst :: "string \<Rightarrow> jsval \<Rightarrow> jsval list \<Rightarrow> jsval list option" where
  "overwriteFirst key val [] = None"
| "overwriteFirst key val (p # ps) =
     (if keyNameOf p = Inr (Some key) then Some (Property (keyOf p) val # ps)
      else map_option ((#) p) (overwriteFirst key val ps))"

text \<open>\<^verbatim>\<open>checkIfExistsAndAddValue\<close> (lines 337-354), on the object \<^verbatim>\<open>node.value\<close>. The filter
  reads the key name of every property before anything is changed.\<close>

definition checkIfExistsAndAddValue :: "jsval \<Rightarrow> string \<Rightarrow> jsval \<Rightarrow> error + jsval" where
  "checkIfExistsAndAddValue obj key val =
     (case obj of
        ObjectExpression props \<Rightarrow>
          (case mapE keyNameOf props of
             Inl e \<Rightarrow> Inl e
           | Inr names \<Rightarrow>
               (case overwriteFirst key val props of
                  Some props' \<Rightarrow> Inr (ObjectExpression props')
                | None \<Rightarrow>
                    (case j_property (Identifier key) val of
                       Inl e \<Rightarrow> Inl e
                     | Inr prop \<Rightarrow> Inr (ObjectExpression (props @ [prop])))))
      | _ \<Rightarrow> Inl TypeError)"

text \<open>\<^verbatim>\<open>val.hasOwnProperty("type")\<close>: true of a node; a plain object that owns the key is
  not modelled.\<close>

definition hasOwnType :: "jsval \<Rightarrow> error + bool" where
  "hasOwnType v =
     (case v of
        VUndefined \<Rightarrow> Inl TypeError
      | VNull \<Rightarrow> Inl TypeError
      | VBool _ \<Rightarrow> Inr False
      | VNum _ \<Rightarrow> Inr False
      | VStr _ \<Rightarrow> Inr False
      | VRegExp _ \<Rightarrow> Inr False
      | VArr _ \<Rightarrow> Inr False
      | VObj kvs \<Rightarrow> if ''type'' \<in> set (map fst kvs) then Inl Unmodelled else Inr False
      | _ \<Rightarrow> Inr True)"

text \<open>\<^verbatim>\<open>pushCreateProperty\<close> (lines 501-516), on the object \<^verbatim>\<open>p.value\<close>.\<close>

definition pushCreateProperty :: "jsval \<Rightarrow> string \<Rightarrow> jsval \<Rightarrow> error + jsval" where
  "pushCreateProperty obj key val =
     (case hasOwnType val of
        Inl e \<Rightarrow> Inl e
      | Inr t \<Rightarrow>
          (case (if t then Inr val else createIdentifierOrLiteral val) of
             Inl e \<Rightarrow> Inl e
           | Inr property \<Rightarrow>
               (case createObjectWithSuppliedProperty key property of
                  Inl e \<Rightarrow> Inl e
                | Inr x \<Rightarrow> pushProperty obj x)))"

definition isProperty :: "jsval \<Rightarrow> bool" where
  "isProperty n = (case n of Property _ _ \<Rightarrow> True | _ \<Rightarrow> False)"

text \<open>Lines 555-557: the properties below \<open>obj\<close> whose key is the identifier \<open>webpackProp\<close>.\<close>

definition findProperties :: "string \<Rightarrow> jsval \<Rightarrow> nat list list" where
  "findProperties webpackProp obj =
     filter (\<lambda>path. case subnode obj path of
                       None \<Rightarrow> False
                     | Some prop \<Rightarrow> keyName prop = Some webpackProp)
       (findPaths isProperty obj)"

text \<open>Reading \<^verbatim>\<open>elem.value\<close> of an array element.\<close>

definition readValue :: "jsval \<Rightarrow> error + jsval" where
  "readValue n =
     (case n of
        VUndefined \<Rightarrow> Inl TypeError
      | VNull \<Rightarrow> Inl TypeError
      | VObj _ \<Rightarrow> Inl Unmodelled
      | _ \<Rightarrow> Inr (valueOf n))"

text \<open>Lines 559-573, for one found property: the truthy values of the present elements and
  the items of the new sequence go through \<open>hashtable\<close>, and a node for each result is
  pushed onto the elements that are already there. \<^verbatim>\<open>./hashtable\<close> is not among the
  sources; it is a parameter.\<close>

definition mergeArrayProperty :: "(jsval list \<Rightarrow> jsval list) \<Rightarrow> jsval list \<Rightarrow> jsval \<Rightarrow> error + jsval" where
  "mergeArrayProperty hashtable newItems property =
     (case property of
        Property k (ArrayExpression elements) \<Rightarrow>
          (case mapE readValue elements of
             Inl e \<Rightarrow> Inl e
           | Inr vals \<Rightarrow>
               (case mapE createIdentifierOrLiteral (hashtable (filter truthy vals @ newItems)) of
                  Inl e \<Rightarrow> Inl e
                | Inr nodes \<Rightarrow> Inr (Property k (ArrayExpression (elements @ nodes)))))
      | _ \<Rightarrow> Inl TypeError)"

text \<open>Modelled from the spec: \<^verbatim>\<open>./hashtable\<close>, the deduplication step, is missing from the
  sources. The specification asks for the order of first occurrence to be preserved.\<close>

definition hashtable_spec :: "jsval list \<Rightarrow> jsval list" where
  "hashtable_spec xs = rev (remdups (rev xs))"

text \<open>The positions of the properties of \<open>props\<close> that \<^verbatim>\<open>safeTraverse(n, ["key", "name"])\<close>
  reads as \<open>name\<close>.\<close>

definition matchingProps :: "string \<Rightarrow> jsval list \<Rightarrow> nat list" where
  "matchingProps name props = filter (\<lambda>i. keyName (props ! i) = Some name) [0 ..< length props]"

text \<open>
  \<^verbatim>\<open>pushObjectKeys\<close> (lines 528-609), on the object \<open>obj\<close> that is \<^verbatim>\<open>p.value\<close>. The matching
  properties are fixed before the loop; \<open>[i, 1]\<close> is the path of the value of the \<open>i\<close>-th
  property, which the source reaches as \<^verbatim>\<open>prop.value\<close>. In the recursive call \<^verbatim>\<open>p\<close> is the
  property itself, and \<^verbatim>\<open>j(p).find\<close> then searches below its value.
\<close>

function pushObjectKeys ::
  "(jsval list \<Rightarrow> jsval list) \<Rightarrow> jsval \<Rightarrow> jsval \<Rightarrow> string \<Rightarrow> bool \<Rightarrow> error + jsval" where
  "pushObjectKeys hashtable obj webpackProperties name reassign =
     (case obj of
        ObjectExpression props \<Rightarrow>
          forEachE
            (\<lambda>obj i.
               case objectEntries webpackProperties of
                 Inl e \<Rightarrow> Inl e
               | Inr es \<Rightarrow>
                   forEachE
                     (\<lambda>obj (webpackProp, v).
                        if isInjectKey webpackProp then
                          (if reassign then
                             updateAt (\<lambda>pv. checkIfExistsAndAddValue pv webpackProp v) [i, 1] obj
                           else
                             (case createIdentifierOrLiteral v of
                                Inl e \<Rightarrow> Inl e
                              | Inr n \<Rightarrow> updateAt (\<lambda>pv. pushProperty pv n) [i, 1] obj))
                        else if isArray v then
                          (if reassign then
                             forEachE
                               (\<lambda>obj path.
                                  updateAt (mergeArrayProperty hashtable (arrayItems v)) path obj)
                               obj (findProperties webpackProp obj)
                           else
                             (case createArrayWithChildren webpackProp v True of
                                Inl e \<Rightarrow> Inl e
                              | Inr propArray \<Rightarrow> updateAt (\<lambda>pv. pushProperty pv propArray) [i, 1] obj))
                        else if v = VNull then Inl TypeError
                        else if isScalar v \<or> has_paths v then
                          updateAt (\<lambda>pv. pushCreateProperty pv webpackProp v) [i, 1] obj
                        else
                          (case (if \<not> reassign
                                 then updateAt
                                        (\<lambda>pv. pushCreateProperty pv webpackProp (ObjectExpression []))
                                        [i, 1] obj
                                 else Inr obj) of
                             Inl e \<Rightarrow> Inl e
                           | Inr obj' \<Rightarrow>
                               (case subnode obj' [i, 1] of
                                  None \<Rightarrow> Inl TypeError
                                | Some pv \<Rightarrow>
                                    (case pushObjectKeys hashtable pv v webpackProp reassign of
                                       Inl e \<Rightarrow> Inl e
                                     | Inr pv' \<Rightarrow> updateAt (\<lambda>_. Inr pv') [i, 1] obj'))))
                     obj es)
            obj (matchingProps name props)
      | _ \<Rightarrow> Inl TypeError)"
  by pat_completeness auto
termination
proof (relation "measure (\<lambda>(hashtable, obj, webpackProperties, name, reassign). size webpackProperties)")
  show "wf (measure (\<lambda>(hashtable, obj, webpackProperties, name, reassign). size webpackProperties))"
    by simp
next
  fix hashtable :: "jsval list \<Rightarrow> jsval list" and obj webpackProperties :: jsval
    and name :: string and reassign :: bool and es :: "(string \<times> jsval) list"
    and x :: "string \<times> jsval" and webpackProp :: string and v pv :: jsval
  assume "objectEntries webpackProperties = Inr es" "x \<in> set es" "(webpackProp, v) = x"
    "\<not> (isScalar v \<or> has_paths v)"
  then have "size v < size webpackProperties"
    using objectEntries_size by (metis)
  then show "((hashtable, pv, v, webpackProp, reassign),
              (hashtable, obj, webpackProperties, name, reassign))
      \<in> measure (\<lambda>(hashtable, obj, webpackProperties, name, reassign). size webpackProperties)"
    by simp
qed

declare pushObjectKeys.simps [simp del]

section \<open>Reassign mode on marker keys and nested mappings\<close>

text \<open>A description whose keys are distinct and either carry the marker \<^verbatim>\<open>inject\<close> or hold
  a nested mapping of the same kind.\<close>

fun reassignable :: "jsval \<Rightarrow> bool" where
  "reassignable (VObj kvs) =
     (distinct (map fst kvs) \<and>
      list_all (\<lambda>kv. isInjectKey (fst kv) \<or> (isMapping (snd kv) \<and> \<not> has_paths (snd kv) \<and> reassignable (snd kv))) kvs)"
| "reassignable v = False"

text \<open>What \<^verbatim>\<open>pushObjectKeys\<close> does under reassign to the value \<open>pv\<close> of a matching property, for
  one entry of such a description.\<close>

definition reassignStep :: "(jsval list \<Rightarrow> jsval list) \<Rightarrow> string \<times> jsval \<Rightarrow> jsval \<Rightarrow> error + jsval" where
  "reassignStep hashtable kv pv =
     (if isInjectKey (fst kv) then checkIfExistsAndAddValue pv (fst kv) (snd kv)
      else pushObjectKeys hashtable pv (snd kv) (fst kv) True)"

text \<open>The same for all entries, in their order.\<close>

definition reassignAll :: "(jsval list \<Rightarrow> jsval list) \<Rightarrow> (string \<times> jsval) list \<Rightarrow> jsval \<Rightarrow> error + jsval" where
  "reassignAll hashtable kvs pv = forEachE (\<lambda>pv kv. reassignStep hashtable kv pv) pv kvs"

text \<open>The same on the property itself.\<close>

definition reassignProp :: "(jsval list \<Rightarrow> jsval list) \<Rightarrow> (string \<times> jsval) list \<Rightarrow> jsval \<Rightarrow> error + jsval" where
  "reassignProp hashtable kvs p =
     (case p of
        Property key v \<Rightarrow>
          (case reassignAll hashtable kvs v of Inl e \<Rightarrow> Inl e | Inr v' \<Rightarrow> Inr (Property key v'))
      | _ \<Rightarrow> Inl TypeError)"

text \<open>Every property has a key whose name can be read.\<close>

definition keysDefined :: "jsval list \<Rightarrow> bool" where
  "keysDefined xs = (\<forall>p\<in>set xs. \<exists>n. keyNameOf p = Inr n)"

text \<open>Two objects hold the same properties of the key \<open>k\<close>, in the same order.\<close>

definition sameNamed :: "string \<Rightarrow> jsval \<Rightarrow> jsval \<Rightarrow> bool" where
  "sameNamed k x z =
     (\<exists>xs zs. x = ObjectExpression xs \<and> z = ObjectExpression zs \<and>
        filter (\<lambda>p. keyName p = Some k) xs = filter (\<lambda>p. keyName p = Some k) zs \<and>
        (keysDefined xs \<longrightarrow> keysDefined zs))"

text \<open>One entry of such a description.\<close>

definition entryReassignable :: "string \<times> jsval \<Rightarrow> bool" where
  "entryReassignable kv =
     (isInjectKey (fst kv) \<or> (isMapping (snd kv) \<and> \<not> has_paths (snd kv) \<and> reassignable (snd kv)))"

section \<open>Theorems: scalar coercion\<close>

lemma Number_true: "Number ''true'' = NaN"
  by code_simp

lemma Number_false: "Number ''false'' = NaN"
  by code_simp

lemma Number_empty: "Number [] = Finite 0"
  by code_simp

lemma j_literal_prim [simp]:
  "j_literal (VBool b) = Inr (Literal (VBool b))"
  "j_literal (VNum n) = Inr (Literal (VNum n))"
  "j_literal (VStr s) = Inr (Literal (VStr s))"
  "j_literal VNull = Inr (Literal VNull)"
  "j_literal (VRegExp r) = Inr (Literal (VRegExp r))"
  by (simp_all add: j_literal_def)

lemma createLiteral_VStr:
  "createLiteral (VStr s) =
     Inr (Literal (if \<not> isNaN (Number s) then VNum (Number s)
                   else if s = ''false'' then VBool False
                   else if s = ''true'' then VBool True else VStr s))"
  by (simp add: createLiteral_def Let_def)

lemma createIdentifierOrLiteral_VStr:
  "createIdentifierOrLiteral (VStr s) =
     Inr (if s = ''true'' then Literal (VBool True)
          else if s = ''false'' then Literal (VBool False)
          else if \<not> isNaN (Number s) then Literal (VNum (Number s))
          else Identifier s)"
  by (simp add: createIdentifierOrLiteral_def)

text \<open>
  Claim C2. Under both \<^verbatim>\<open>createLiteral\<close> and \<^verbatim>\<open>createIdentifierOrLiteral\<close> the string
  \<^verbatim>\<open>"true"\<close> becomes the boolean literal true and \<^verbatim>\<open>"false"\<close> the boolean literal
  false; a string that \<^verbatim>\<open>Number\<close> parses (the result is not NaN) becomes the numeric
  literal of that number; any other string becomes a string literal under
  \<^verbatim>\<open>createLiteral\<close> and an identifier of that name under \<^verbatim>\<open>createIdentifierOrLiteral\<close>.
\<close>

theorem C2_scalar_coercion:
  "createLiteral (VStr ''true'') = Inr (Literal (VBool True)) \<and>
   createLiteral (VStr ''false'') = Inr (Literal (VBool False)) \<and>
   createIdentifierOrLiteral (VStr ''true'') = Inr (Literal (VBool True)) \<and>
   createIdentifierOrLiteral (VStr ''false'') = Inr (Literal (VBool False)) \<and>
   (\<not> isNaN (Number s) \<longrightarrow>
      createLiteral (VStr s) = Inr (Literal (VNum (Number s))) \<and>
      createIdentifierOrLiteral (VStr s) = Inr (Literal (VNum (Number s)))) \<and>
   (isNaN (Number s) \<and> s \<noteq> ''true'' \<and> s \<noteq> ''false'' \<longrightarrow>
      createLiteral (VStr s) = Inr (Literal (VStr s)) \<and>
      createIdentifierOrLiteral (VStr s) = Inr (Identifier s))"
proof -
  have t: "isNaN (Number ''true'')" and f: "isNaN (Number ''false'')"
    by (simp_all add: isNaN_def Number_true Number_false)
  have num: "\<not> isNaN (Number s) \<Longrightarrow> s \<noteq> ''true'' \<and> s \<noteq> ''false''"
    using t f by auto
  show ?thesis
    using t f num
    by (simp add: createLiteral_VStr createIdentifierOrLiteral_VStr)
qed

theorem C2_scalar_coercion_witness:
  "createLiteral (VStr ''12'') = Inr (Literal (VNum (Finite 12))) \<and>
   createIdentifierOrLiteral (VStr ''12'') = Inr (Literal (VNum (Finite 12))) \<and>
   createLiteral (VStr ''path'') = Inr (Literal (VStr ''path'')) \<and>
   createIdentifierOrLiteral (VStr ''path'') = Inr (Identifier ''path'')"
proof -
  have n: "Number ''12'' = Finite 12" by code_simp
  have p: "Number ''path'' = NaN" by code_simp
  show ?thesis
    using C2_scalar_coercion [of "''12''"] C2_scalar_coercion [of "''path''"]
    by (simp add: n p isNaN_def)
qed

text \<open>
  Claim C10. For the empty string both \<^verbatim>\<open>createLiteral\<close> and
  \<^verbatim>\<open>createIdentifierOrLiteral\<close> return the numeric literal 0: \<^verbatim>\<open>Number("")\<close> is 0, so
  the result is neither a string literal nor an identifier.
\<close>

theorem C10_empty_string_is_zero:
  "createLiteral (VStr []) = Inr (Literal (VNum (Finite 0))) \<and>
   createIdentifierOrLiteral (VStr []) = Inr (Literal (VNum (Finite 0))) \<and>
   createLiteral (VStr []) \<noteq> Inr (Literal (VStr [])) \<and>
   createIdentifierOrLiteral (VStr []) \<noteq> Inr (Identifier [])"
  by (simp add: createLiteral_VStr createIdentifierOrLiteral_VStr Number_empty isNaN_def)

section \<open>Theorems: building an object from a description\<close>

lemma pushElements_empty [simp]:
  "pushElements (createEmptyArrayProperty key) xs = Property (Identifier key) (ArrayExpression xs)"
  by (simp add: pushElements_def createEmptyArrayProperty_def)

lemma forEachE_append:
  "forEachE f s (xs @ ys) = (case forEachE f s xs of Inl e \<Rightarrow> Inl e | Inr s' \<Rightarrow> forEachE f s' ys)"
  by (induction xs arbitrary: s) (auto split: sum.splits)

lemma createIdentifierOrLiteral_primitive:
  "isPrimitive v \<Longrightarrow> createIdentifierOrLiteral v = Inr (valueNode_spec v)"
  by (cases v) (auto simp: isPrimitive_def valueNode_spec_def createIdentifierOrLiteral_def has_paths_def)

lemma valueNode_spec_shape:
  "isPrimitive v \<Longrightarrow> isExpression (valueNode_spec v) \<and> keyName (valueNode_spec v) = None"
  by (cases v) (auto simp: isPrimitive_def valueNode_spec_def isExpression_def keyName_def)

lemma forEachE_collect:
  assumes "\<And>x s. x \<in> set xs \<Longrightarrow> f (C s) x = Inr (C (s @ [g x]))"
  shows "forEachE f (C s) xs = Inr (C (s @ map g xs))"
  using assms
proof (induction xs arbitrary: s)
  case Nil
  then show ?case by simp
next
  case (Cons x xs)
  have "f (C s) x = Inr (C (s @ [g x]))" by (rule Cons.prems) simp
  moreover have "forEachE f (C (s @ [g x])) xs = Inr (C ((s @ [g x]) @ map g xs))"
  proof (rule Cons.IH)
    fix y t
    assume "y \<in> set xs"
    then have "y \<in> set (x # xs)" by simp
    then show "f (C t) y = Inr (C (t @ [g y]))" by (rule Cons.prems)
  qed
  ultimately show ?case by simp
qed

lemma objectEntries_entriesOf:
  "isMapping d \<or> isArray d \<Longrightarrow> objectEntries d = Inr (entriesOf d)"
  by (cases d) (auto simp: isMapping_def isArray_def objectEntries_def entriesOf_def)

lemma wfValue_scalar: "wfValue v \<Longrightarrow> isScalar v \<Longrightarrow> isPrimitive v"
  by (cases v) (auto simp: wfValue.simps isScalar_def isPrimitive_def isArray_def isMapping_def)

lemma wfValue_mapping: "wfValue v \<Longrightarrow> \<not> isScalar v \<Longrightarrow> \<not> isArray v \<Longrightarrow> isMapping v \<and> wfObject v"
  by (cases v) (auto simp: wfValue.simps isScalar_def isPrimitive_def isArray_def isMapping_def)

lemma isString_primitive: "isString x \<Longrightarrow> isPrimitive x"
  by (cases x) (auto simp: isString_def isPrimitive_def)

lemma propertyNode_spec_primitive: "isPrimitive v \<Longrightarrow> propertyNode_spec v = valueNode_spec v"
  by (cases v) (auto simp: propertyNode_spec.simps isPrimitive_def isArray_def isMapping_def)

lemma objectNode_spec_isExpression: "isExpression (objectNode_spec d)"
  by (simp add: objectNode_spec.simps isExpression_def)

lemma build_spec:
  "shouldDropKeys \<Longrightarrow> isArray subProps \<Longrightarrow> wfValue subProps \<Longrightarrow>
     createArrayWithChildren key subProps shouldDropKeys =
       Inr (Property (Identifier key) (propertyNode_spec subProps))"
  "wfObject obj \<Longrightarrow>
     (\<forall>ps. p = ObjectExpression ps \<longrightarrow>
        loopThroughObjects p obj = Inr (ObjectExpression (ps @ map entryNode_spec (entriesOf obj))))"
proof (induction key subProps shouldDropKeys and p obj
    rule: createArrayWithChildren_loopThroughObjects.induct)
  case (1 key subProps shouldDropKeys)
  from 1(3) obtain xs where xs: "subProps = VArr xs"
    by (cases subProps) (auto simp: isArray_def)
  with 1(4) have wf: "\<forall>x\<in>set xs. wfItem x"
    by (simp add: wfValue.simps isArray_def arrayItems_def list_all_iff)
  let ?f = "\<lambda>elements subProperty.
              if \<not> isString subProperty then
                (case loopThroughObjects (ObjectExpression []) subProperty of
                   Inl e \<Rightarrow> Inl e
                 | Inr objectOfArray \<Rightarrow> Inr (elements @ [objectOfArray]))
              else
                (case createIdentifierOrLiteral subProperty of
                   Inl e \<Rightarrow> Inl e
                 | Inr n \<Rightarrow> Inr (elements @ [n]))"
  have step: "?f u x = Inr (u @ [itemNode_spec x])" if "x \<in> set xs" for u :: "jsval list" and x
  proof (cases "isString x")
    case True
    then show ?thesis
      by (simp add: createIdentifierOrLiteral_primitive isString_primitive itemNode_spec.simps)
  next
    case False
    with wf that have "wfObject x" by (auto simp: wfItem.simps)
    from 1(1)[OF 1(2) xs that False this]
    have "loopThroughObjects (ObjectExpression []) x = Inr (objectNode_spec x)"
      by (simp add: objectNode_spec.simps)
    with False show ?thesis by (simp add: itemNode_spec.simps)
  qed
  have "forEachE ?f [] xs = Inr ([] @ map itemNode_spec xs)"
    by (rule forEachE_collect[where C = "\<lambda>u. u"]) (rule step)
  with xs 1(2) show ?case
    by (simp add: createArrayWithChildren.simps propertyNode_spec.simps isArray_def arrayItems_def)
next
  case (2 p obj)
  from 2(3) have shape: "isMapping obj \<or> isArray obj"
    and ok: "\<forall>kv\<in>set (entriesOf obj). wfEntry kv"
    by (auto simp: wfObject.simps list_all_iff)
  from objectEntries_entriesOf[OF shape] have es: "objectEntries obj = Inr (entriesOf obj)" .
  let ?f = "\<lambda>p (prop, v).
               if isInjectKey prop then
                 (case createIdentifierOrLiteral v of
                    Inl e \<Rightarrow> Inl e
                  | Inr propertyExpression \<Rightarrow> pushProperty p propertyExpression)
               else if isScalar v then
                 (case createIdentifierOrLiteral v of
                    Inl e \<Rightarrow> Inl e
                  | Inr n \<Rightarrow>
                      (case createObjectWithSuppliedProperty prop n of
                         Inl e \<Rightarrow> Inl e
                       | Inr x \<Rightarrow> pushProperty p x))
               else if isArray v then
                 (case createArrayWithChildren prop v True of
                    Inl e \<Rightarrow> Inl e
                  | Inr arrayProp \<Rightarrow> pushProperty p arrayProp)
               else
                 (case loopThroughObjects (ObjectExpression []) v of
                    Inl e \<Rightarrow> Inl e
                  | Inr objectBlock \<Rightarrow>
                      (case createObjectWithSuppliedProperty prop objectBlock of
                         Inl e \<Rightarrow> Inl e
                       | Inr propertyOfBlock \<Rightarrow> pushProperty p propertyOfBlock))"
  have step: "?f (ObjectExpression qs) x = Inr (ObjectExpression (qs @ [entryNode_spec x]))"
    if "x \<in> set (entriesOf obj)" for qs x
  proof -
    obtain k v where x: "x = (k, v)" by (cases x)
    from ok that x have wfe: "wfEntry (k, v)" by auto
    consider (a) "isInjectKey k" | (b) "\<not> isInjectKey k" "isScalar v"
      | (c) "\<not> isInjectKey k" "\<not> isScalar v" "isArray v"
      | (d) "\<not> isInjectKey k" "\<not> isScalar v" "\<not> isArray v" by blast
    then show ?thesis
    proof cases
      case a
      with wfe have "isPrimitive v" by (simp add: wfEntry.simps)
      with a x show ?thesis
        by (simp add: createIdentifierOrLiteral_primitive pushProperty_def entryNode_spec.simps)
    next
      case b
      with wfe have "wfValue v" by (simp add: wfEntry.simps)
      from wfValue_scalar[OF this b(2)] have pr: "isPrimitive v" .
      from valueNode_spec_shape[OF pr] have "isExpression (valueNode_spec v)" by simp
      with b x pr show ?thesis
        by (simp add: createIdentifierOrLiteral_primitive createObjectWithSuppliedProperty_def
            j_property_def pushProperty_def entryNode_spec.simps propertyNode_spec_primitive
            isExpression_def)
    next
      case c
      with wfe have wfv: "wfValue v" by (simp add: wfEntry.simps)
      from 2(1)[OF es that x[symmetric] c _ c(3) wfv]
      have "createArrayWithChildren k v True = Inr (Property (Identifier k) (propertyNode_spec v))"
        by simp
      with c x show ?thesis
        by (simp add: pushProperty_def entryNode_spec.simps)
    next
      case d
      with wfe have wfv: "wfValue v" by (simp add: wfEntry.simps)
      from wfValue_mapping[OF wfv d(2,3)] have m: "isMapping v" and wfo: "wfObject v" by simp_all
      from 2(2)[OF es that x[symmetric] d wfo]
      have "loopThroughObjects (ObjectExpression []) v = Inr (objectNode_spec v)"
        by (simp add: objectNode_spec.simps)
      moreover from m d(3) have "propertyNode_spec v = objectNode_spec v"
        by (simp add: propertyNode_spec.simps)
      moreover note objectNode_spec_isExpression[of v]
      ultimately show ?thesis using d x
        by (simp add: createObjectWithSuppliedProperty_def j_property_def pushProperty_def
            entryNode_spec.simps isExpression_def)
    qed
  qed
  show ?case
  proof (intro allI impI)
    fix ps
    assume p: "p = ObjectExpression ps"
    have "forEachE ?f (ObjectExpression ps) (entriesOf obj) =
        Inr (ObjectExpression (ps @ map entryNode_spec (entriesOf obj)))"
      by (rule forEachE_collect[where C = ObjectExpression]) (rule step)
    with es p show "loopThroughObjects p obj =
        Inr (ObjectExpression (ps @ map entryNode_spec (entriesOf obj)))"
      by (simp add: loopThroughObjects.simps)
  qed
qed

lemma entryNode_spec_keyName:
  assumes "wfEntry kv"
  shows "keyName (entryNode_spec kv) = (if isInjectKey (fst kv) then None else Some (fst kv))"
proof -
  obtain k v where kv: "kv = (k, v)" by (cases kv)
  show ?thesis
  proof (cases "isInjectKey k")
    case True
    with assms kv have "isPrimitive v" by (simp add: wfEntry.simps)
    from valueNode_spec_shape[OF this] True kv show ?thesis
      by (simp add: entryNode_spec.simps)
  next
    case False
    with kv show ?thesis by (simp add: entryNode_spec.simps keyName_def)
  qed
qed

lemma loopThroughObjects_forEach:
  "loopThroughObjects p obj =
     (case objectEntries obj of Inl e \<Rightarrow> Inl e | Inr es \<Rightarrow> forEachE loopEntry p es)"
proof -
  have "loopEntry = (\<lambda>p (prop, v).
               if isInjectKey prop then
                 (case createIdentifierOrLiteral v of
                    Inl e \<Rightarrow> Inl e
                  | Inr propertyExpression \<Rightarrow> pushProperty p propertyExpression)
               else if isScalar v then
                 (case createIdentifierOrLiteral v of
                    Inl e \<Rightarrow> Inl e
                  | Inr n \<Rightarrow>
                      (case createObjectWithSuppliedProperty prop n of
                         Inl e \<Rightarrow> Inl e
                       | Inr x \<Rightarrow> pushProperty p x))
               else if isArray v then
                 (case createArrayWithChildren prop v True of
                    Inl e \<Rightarrow> Inl e
                  | Inr arrayProp \<Rightarrow> pushProperty p arrayProp)
               else
                 (case loopThroughObjects (ObjectExpression []) v of
                    Inl e \<Rightarrow> Inl e
                  | Inr objectBlock \<Rightarrow>
                      (case createObjectWithSuppliedProperty prop objectBlock of
                         Inl e \<Rightarrow> Inl e
                       | Inr propertyOfBlock \<Rightarrow> pushProperty p propertyOfBlock)))"
    by (intro ext) (simp add: loopEntry_def)
  then show ?thesis
    by (subst loopThroughObjects.simps) (simp split: sum.splits)
qed

lemma loopThroughObjects_Nil: "loopThroughObjects p (VObj []) = Inr p"
  by (simp add: loopThroughObjects_forEach objectEntries_def)

lemma loopThroughObjects_append:
  "loopThroughObjects p (VObj (xs @ ys)) =
     (case loopThroughObjects p (VObj xs) of
        Inl e \<Rightarrow> Inl e
      | Inr p' \<Rightarrow> loopThroughObjects p' (VObj ys))"
  by (simp add: loopThroughObjects_forEach objectEntries_def forEachE_append split: sum.splits)

lemma loopThroughObjects_single:
  "loopThroughObjects p (VObj [kv]) = loopEntry p kv"
  by (simp add: loopThroughObjects_forEach objectEntries_def split: sum.splits)

lemma loopThroughObjects_Cons:
  "loopThroughObjects p (VObj (kv # kvs)) =
     (case loopEntry p kv of
        Inl e \<Rightarrow> Inl e
      | Inr p' \<Rightarrow> loopThroughObjects p' (VObj kvs))"
  by (simp add: loopThroughObjects_forEach objectEntries_def split: sum.splits)

lemma createIdentifierOrLiteral_result:
  "createIdentifierOrLiteral v = Inr n \<Longrightarrow> (\<exists>s. n = Identifier s) \<or> (\<exists>l. n = Literal l)"
  by (cases v) (auto simp: createIdentifierOrLiteral_def j_literal_def split: if_splits jsval.splits)

text \<open>
  Claim C1, as amended. Let the description be made of strings, numbers, booleans,
  sequences and nested mappings, a key with the marker \<^verbatim>\<open>inject\<close> holding a primitive and no
  number or boolean being an item of a sequence. Then \<^verbatim>\<open>loopThroughObjects\<close> on a fresh empty
  object returns an object with one entry per key, in the order of the keys: a key without
  the marker gives a property of that name, a key with the marker the bare value node of
  its primitive, without a key. A primitive is embedded by the coercion rule: a number or a
  boolean as the same literal, \<^verbatim>\<open>"true"\<close> and \<^verbatim>\<open>"false"\<close> as boolean literals, a string that
  parses as a number as the numeric literal, any other string as an identifier and not as a
  string literal. A nested mapping is embedded as the object built from it in the same
  way, and a sequence as the array expression of its items in their order: a string item
  by the coercion rule, a mapping item as the object built from it, and an item that is
  itself a sequence as the object built from it with its indices as keys.
\<close>

theorem C1_amended:
  assumes "wfObject (VObj kvs)"
  shows "loopThroughObjects (ObjectExpression []) (VObj kvs) =
           Inr (ObjectExpression (map entryNode_spec kvs))
       \<and> map keyName (map entryNode_spec kvs) =
           map (\<lambda>kv. if isInjectKey (fst kv) then None else Some (fst kv)) kvs"
proof -
  from build_spec(2)[OF assms, of "ObjectExpression []"]
  have "loopThroughObjects (ObjectExpression []) (VObj kvs) =
      Inr (ObjectExpression (map entryNode_spec kvs))"
    by (simp add: entriesOf_def)
  moreover from assms have "\<forall>kv\<in>set kvs. wfEntry kv"
    by (simp add: wfObject.simps entriesOf_def list_all_iff)
  then have "map keyName (map entryNode_spec kvs) =
      map (\<lambda>kv. if isInjectKey (fst kv) then None else Some (fst kv)) kvs"
    by (simp add: entryNode_spec_keyName)
  ultimately show ?thesis by simp
qed

theorem C1_amended_witness:
  "loopThroughObjects (ObjectExpression [])
     (VObj [(''entry'', VStr ''index''), (''watch'', VStr ''true''), (''port'', VNum (Finite 80)),
            (''injectMode'', VStr ''1''),
            (''output'', VObj [(''path'', VStr ''dist'')]),
            (''rules'', VArr [VStr ''css'', VStr ''1'', VObj [(''test'', VStr ''js'')],
                              VArr [VNum (Finite 5)]])])
   = Inr (ObjectExpression
       [Property (Identifier ''entry'') (Identifier ''index''),
        Property (Identifier ''watch'') (Literal (VBool True)),
        Property (Identifier ''port'') (Literal (VNum (Finite 80))),
        Literal (VNum (Finite 1)),
        Property (Identifier ''output'')
          (ObjectExpression [Property (Identifier ''path'') (Identifier ''dist'')]),
        Property (Identifier ''rules'')
          (ArrayExpression
             [Identifier ''css'', Literal (VNum (Finite 1)),
              ObjectExpression [Property (Identifier ''test'') (Identifier ''js'')],
              ObjectExpression [Property (Identifier ''0'') (Literal (VNum (Finite 5)))]])])
   \<and> map keyName
       [Property (Identifier ''entry'') (Identifier ''index''),
        Property (Identifier ''watch'') (Literal (VBool True)),
        Property (Identifier ''port'') (Literal (VNum (Finite 80))),
        Literal (VNum (Finite 1)),
        Property (Identifier ''output'')
          (ObjectExpression [Property (Identifier ''path'') (Identifier ''dist'')]),
        Property (Identifier ''rules'')
          (ArrayExpression
             [Identifier ''css'', Literal (VNum (Finite 1)),
              ObjectExpression [Property (Identifier ''test'') (Identifier ''js'')],
              ObjectExpression [Property (Identifier ''0'') (Literal (VNum (Finite 5)))]])]
     = [Some ''entry'', Some ''watch'', Some ''port'', None, Some ''output'', Some ''rules'']"
proof -
  let ?kvs = "[(''entry'', VStr ''index''), (''watch'', VStr ''true''), (''port'', VNum (Finite 80)),
            (''injectMode'', VStr ''1''),
            (''output'', VObj [(''path'', VStr ''dist'')]),
            (''rules'', VArr [VStr ''css'', VStr ''1'', VObj [(''test'', VStr ''js'')],
                              VArr [VNum (Finite 5)]])]"
  have wf: "wfObject (VObj ?kvs)"
    by code_simp
  have nodes: "map entryNode_spec ?kvs =
       [Property (Identifier ''entry'') (Identifier ''index''),
        Property (Identifier ''watch'') (Literal (VBool True)),
        Property (Identifier ''port'') (Literal (VNum (Finite 80))),
        Literal (VNum (Finite 1)),
        Property (Identifier ''output'')
          (ObjectExpression [Property (Identifier ''path'') (Identifier ''dist'')]),
        Property (Identifier ''rules'')
          (ArrayExpression
             [Identifier ''css'', Literal (VNum (Finite 1)),
              ObjectExpression [Property (Identifier ''test'') (Identifier ''js'')],
              ObjectExpression [Property (Identifier ''0'') (Literal (VNum (Finite 5)))]])]"
    by code_simp
  have keys: "map (\<lambda>kv. if isInjectKey (fst kv) then None else Some (fst kv)) ?kvs
      = [Some ''entry'', Some ''watch'', Some ''port'', None, Some ''output'', Some ''rules'']"
    by code_simp
  show ?thesis
    using C1_amended [OF wf] unfolding nodes keys .
qed

text \<open>
  Claim C1 as stated fails: the key \<^verbatim>\<open>injectA\<close> is not a key of the result, the string
  \<^verbatim>\<open>"app"\<close> comes back as an identifier and not as a string literal, and the number 5 of
  the sequence comes back as an empty object.
\<close>

theorem C1_counterexample:
  "loopThroughObjects (ObjectExpression [])
     (VObj [(''injectA'', VStr ''x''), (''name'', VStr ''app''), (''list'', VArr [VNum (Finite 5)])])
   = Inr (ObjectExpression
       [Identifier ''x'',
        Property (Identifier ''name'') (Identifier ''app''),
        Property (Identifier ''list'') (ArrayExpression [ObjectExpression []])])
   \<and> map keyName
       [Identifier ''x'',
        Property (Identifier ''name'') (Identifier ''app''),
        Property (Identifier ''list'') (ArrayExpression [ObjectExpression []])]
     \<noteq> [Some ''injectA'', Some ''name'', Some ''list'']"
proof -
  have "loopThroughObjects (ObjectExpression [])
     (VObj [(''injectA'', VStr ''x''), (''name'', VStr ''app''), (''list'', VArr [VNum (Finite 5)])])
   = Inr (ObjectExpression
       [Identifier ''x'',
        Property (Identifier ''name'') (Identifier ''app''),
        Property (Identifier ''list'') (ArrayExpression [ObjectExpression []])])"
    by code_simp
  then show ?thesis by (simp add: keyName_def)
qed

lemma createIdentifierOrLiteral_isExpression:
  "createIdentifierOrLiteral v = Inr n \<Longrightarrow> isExpression n \<and> keyName n = None"
  using createIdentifierOrLiteral_result[of v n] by (auto simp: isExpression_def keyName_def)

text \<open>
  Claim C8. A key containing the marker \<^verbatim>\<open>inject\<close> is appended by \<^verbatim>\<open>loopThroughObjects\<close>
  as the bare identifier or literal that \<^verbatim>\<open>createIdentifierOrLiteral\<close> makes of its value,
  pushed directly into the property list of the target; a sibling key without the marker
  is wrapped in a property named by the key, around its value node when the value is a
  scalar and around the object built from it when the value is a nested mapping.
\<close>

theorem C8_inject_bypass:
  assumes "isInjectKey k"
    and "createIdentifierOrLiteral v = Inr n"
    and "loopThroughObjects p (VObj pre) = Inr (ObjectExpression ps)"
  shows "loopThroughObjects p (VObj (pre @ (k, v) # post)) =
           loopThroughObjects (ObjectExpression (ps @ [n])) (VObj post)
       \<and> ((\<exists>s. n = Identifier s) \<or> (\<exists>l. n = Literal l))
       \<and> (\<not> isInjectKey k' \<and> isScalar v' \<and> createIdentifierOrLiteral v' = Inr n' \<longrightarrow>
            loopThroughObjects p (VObj (pre @ (k', v') # post)) =
              loopThroughObjects (ObjectExpression (ps @ [Property (Identifier k') n'])) (VObj post))
       \<and> (\<not> isInjectKey k' \<and> \<not> isScalar v' \<and> \<not> isArray v' \<and>
            loopThroughObjects (ObjectExpression []) v' = Inr (ObjectExpression qs) \<longrightarrow>
            loopThroughObjects p (VObj (pre @ (k', v') # post)) =
              loopThroughObjects (ObjectExpression (ps @ [Property (Identifier k') (ObjectExpression qs)]))
                (VObj post))"
proof -
  have step: "loopThroughObjects p (VObj (pre @ kv # post)) =
      (case loopEntry (ObjectExpression ps) kv of
         Inl e \<Rightarrow> Inl e
       | Inr p' \<Rightarrow> loopThroughObjects p' (VObj post))" for kv
    by (simp add: loopThroughObjects_append assms(3) loopThroughObjects_Cons)
  have a: "loopThroughObjects p (VObj (pre @ (k, v) # post)) =
           loopThroughObjects (ObjectExpression (ps @ [n])) (VObj post)"
    by (simp add: step loopEntry_def assms(1,2) pushProperty_def)
  have b: "loopThroughObjects p (VObj (pre @ (k', v') # post)) =
      loopThroughObjects (ObjectExpression (ps @ [Property (Identifier k') n'])) (VObj post)"
    if "\<not> isInjectKey k'" "isScalar v'" "createIdentifierOrLiteral v' = Inr n'"
    using that createIdentifierOrLiteral_isExpression[OF that(3)]
    by (simp add: step loopEntry_def pushProperty_def createObjectWithSuppliedProperty_def
        j_property_def) (simp add: isExpression_def)
  have c: "loopThroughObjects p (VObj (pre @ (k', v') # post)) =
      loopThroughObjects (ObjectExpression (ps @ [Property (Identifier k') (ObjectExpression qs)]))
        (VObj post)"
    if "\<not> isInjectKey k'" "\<not> isScalar v'" "\<not> isArray v'"
      "loopThroughObjects (ObjectExpression []) v' = Inr (ObjectExpression qs)"
    using that
    by (simp add: step loopEntry_def pushProperty_def createObjectWithSuppliedProperty_def
        j_property_def isExpression_def)
  from a b c createIdentifierOrLiteral_result[OF assms(2)] show ?thesis by blast
qed

theorem C8_inject_bypass_witness:
  "loopThroughObjects (ObjectExpression [])
     (VObj [(''output'', VObj [(''path'', VStr ''dist'')]), (''injectMode'', VStr ''production'')])
   = Inr (ObjectExpression
       [Property (Identifier ''output'')
          (ObjectExpression [Property (Identifier ''path'') (Identifier ''dist'')]),
        Identifier ''production''])"
proof -
  have h1: "isInjectKey ''injectMode''" by code_simp
  have h2: "createIdentifierOrLiteral (VStr ''production'') = Inr (Identifier ''production'')"
    by code_simp
  have h3: "loopThroughObjects (ObjectExpression []) (VObj [(''output'', VObj [(''path'', VStr ''dist'')])])
    = Inr (ObjectExpression [Property (Identifier ''output'')
          (ObjectExpression [Property (Identifier ''path'') (Identifier ''dist'')])])"
    by code_simp
  from C8_inject_bypass [OF h1 h2 h3, of "[]"] show ?thesis
    by (simp add: loopThroughObjects_Nil)
qed

section \<open>Theorems: plugin declarations\<close>

lemma createLiteral_primitive:
  "isPrimitive v \<Longrightarrow> createLiteral v = Inr (Literal (literalValue_spec v))"
  by (cases v)
    (auto simp: isPrimitive_def literalValue_spec_def createLiteral_def Let_def isNaN_def
      Number_true Number_false)

lemma createProperty_primitive:
  "isPrimitive v \<Longrightarrow> createProperty (VStr k) v = Inr (optionProperty_spec (k, v))"
  by (simp add: createProperty_def createIdentifierOrLiteral_primitive isPrimitive_def
      createLiteral_primitive j_property_def valueNode_spec_shape optionProperty_spec_def)
    (simp add: isExpression_def)

lemma mapE_total:
  "(\<And>x. x \<in> set xs \<Longrightarrow> f x = Inr (g x)) \<Longrightarrow> mapE f xs = Inr (map g xs)"
  by (induction xs) auto

lemma createOptionsProps_primitives:
  assumes "list_all (\<lambda>kv. isPrimitive (snd kv)) kvs"
  shows "createOptionsProps (VObj kvs) = Inr (Some (map optionProperty_spec kvs))"
proof -
  have "mapE (\<lambda>(key, v). createProperty (VStr key) v) kvs = Inr (map optionProperty_spec kvs)"
    using assms by (intro mapE_total) (auto simp: list_all_iff createProperty_primitive)
  then show ?thesis
    by (simp add: createOptionsProps_def truthy_def objectEntries_def)
qed

lemma createProperty_key:
  assumes "createProperty (VStr k) v = Inr opt"
  shows "valueOf (keyOf opt) \<noteq> VStr name"
proof -
  from assms obtain key val where opt: "opt = Property key val"
    and key: "createIdentifierOrLiteral (VStr k) = Inr key"
    by (auto simp: createProperty_def j_property_def split: sum.splits if_splits)
  from key have "valueOf key \<noteq> VStr name"
    by (auto simp: createIdentifierOrLiteral_VStr valueOf_def split: if_splits)
  with opt show ?thesis by (simp add: keyOf_def)
qed

lemma existingProps_createProperty:
  "createProperty (VStr k) v = Inr opt \<Longrightarrow> existingProps obj opt = []"
  by (auto simp: existingProps_def filter_empty_conv dest: createProperty_key
      split: option.splits jsval.splits)

lemma splitDot_nonempty: "splitDot s \<noteq> []"
  by (induction s) (auto split: list.splits)

lemma joinDots_splitDot: "joinDots (splitDot s) = s"
proof (induction s)
  case Nil
  then show ?case by simp
next
  case (Cons c cs)
  obtain w ws where w: "splitDot cs = w # ws"
    using splitDot_nonempty[of cs] by (cases "splitDot cs") auto
  show ?case
  proof (cases "c = CHR ''.''")
    case True
    with Cons w show ?thesis by simp
  next
    case False
    with Cons w show ?thesis by (cases ws) auto
  qed
qed

lemma joinDots_snoc: "ws \<noteq> [] \<Longrightarrow> joinDots (ws @ [x]) = joinDots ws @ ''.'' @ x"
  by (induction ws rule: joinDots.induct) auto

lemma pathsToMemberExpression_truthy: "ws \<noteq> [] \<Longrightarrow> truthy (pathsToMemberExpression ws)"
  by (induction ws rule: pathsToMemberExpression.induct) (auto simp: truthy_def)

lemma memberExpression_roundtrip_list:
  "ws \<noteq> [] \<Longrightarrow> memberExpressionToPathString (pathsToMemberExpression (rev ws)) = Inr (Some (joinDots ws))"
proof (induction ws rule: rev_induct)
  case Nil
  then show ?case by simp
next
  case (snoc x ws)
  show ?case
  proof (cases "ws = []")
    case True
    then show ?thesis by simp
  next
    case False
    then obtain y r where yr: "rev ws = y # r" by (cases "rev ws") auto
    from False have "truthy (pathsToMemberExpression (rev ws))"
      by (simp add: pathsToMemberExpression_truthy)
    have "memberExpressionToPathString (pathsToMemberExpression (rev (ws @ [x]))) =
        memberExpressionToPathString
          (MemberExpression (pathsToMemberExpression (rev ws)) (Identifier x))"
      by (simp add: yr)
    also have "\<dots> = Inr (Some (joinDot (Some (joinDots ws)) (Some x)))"
      using snoc.IH[OF False] \<open>truthy (pathsToMemberExpression (rev ws))\<close>
      by (simp add: nameOf_def)
    also have "joinDot (Some (joinDots ws)) (Some x) = joinDots (ws @ [x])"
      using False by (simp add: joinDot_def joinDots_snoc)
    finally show ?thesis .
  qed
qed

lemma memberExpression_roundtrip:
  "memberExpressionToPathString (pathsToMemberExpression (rev (splitDot name))) = Inr (Some name)"
  by (simp add: memberExpression_roundtrip_list splitDot_nonempty joinDots_splitDot)

text \<open>
  Claim C3. When no constructor call below the plugins array reads as the given dotted
  name, \<^verbatim>\<open>createOrUpdatePluginByName\<close> appends exactly one element: a constructor call whose
  callee is the name split on \<^verbatim>\<open>"."\<close> and expanded into nested member access, which
  \<^verbatim>\<open>memberExpressionToPathString\<close> reads back as the name, with a single object-expression
  argument holding one property per entry of the options description.
\<close>

theorem C3_plugin_not_found:
  assumes "findPluginsByName (ArrayExpression es) [name] = Inr []"
    and "list_all (\<lambda>kv. isPrimitive (snd kv)) kvs"
  shows "createOrUpdatePluginByName (ArrayExpression es) name (VObj kvs) =
           Inr (ArrayExpression
                  (es @ [NewExpression (pathsToMemberExpression (rev (splitDot name)))
                           [ObjectExpression (map optionProperty_spec kvs)]]))
       \<and> memberExpressionToPathString (pathsToMemberExpression (rev (splitDot name))) = Inr (Some name)"
  using assms
  by (simp add: createOrUpdatePluginByName_def createOptionsProps_primitives pushElement_def
      memberExpression_roundtrip)

theorem C3_plugin_not_found_witness:
  "createOrUpdatePluginByName (ArrayExpression []) ''webpack.optimize.DedupePlugin''
       (VObj [(''sourceMap'', VBool True)]) =
     Inr (ArrayExpression
            [NewExpression
               (MemberExpression
                  (MemberExpression (Identifier ''webpack'') (Identifier ''optimize''))
                  (Identifier ''DedupePlugin''))
               [ObjectExpression [Property (Identifier ''sourceMap'') (Literal (VBool True))]]])
   \<and> memberExpressionToPathString
       (MemberExpression
          (MemberExpression (Identifier ''webpack'') (Identifier ''optimize''))
          (Identifier ''DedupePlugin'')) = Inr (Some ''webpack.optimize.DedupePlugin'')"
proof -
  have h1: "findPluginsByName (ArrayExpression []) [''webpack.optimize.DedupePlugin''] = Inr []"
    by code_simp
  have h2: "list_all (\<lambda>kv. isPrimitive (snd kv)) [(''sourceMap'', VBool True)]"
    by (simp add: isPrimitive_def)
  have c: "pathsToMemberExpression (rev (splitDot ''webpack.optimize.DedupePlugin'')) =
      MemberExpression
        (MemberExpression (Identifier ''webpack'') (Identifier ''optimize''))
        (Identifier ''DedupePlugin'')"
    by code_simp
  have o: "map optionProperty_spec [(''sourceMap'', VBool True)] =
      [Property (Identifier ''sourceMap'') (Literal (VBool True))]"
    by code_simp
  from C3_plugin_not_found [OF h1 h2] show ?thesis
    unfolding c o by simp
qed

lemma updateAt_top_level:
  "updateAt f [i] (ArrayExpression es) =
     (if i < length es then
        (case f (es ! i) of Inl e \<Rightarrow> Inl e | Inr c \<Rightarrow> Inr (ArrayExpression (es[i := c])))
      else Inl TypeError)"
  by (simp add: children_def withChildren_def split: sum.splits)

lemma forEach_top_level:
  assumes "distinct is" and "\<forall>i\<in>set is. i < length es \<and> f (es ! i) = Inr (g (es ! i))"
  shows "forEachE (\<lambda>tree path. updateAt f path tree) (ArrayExpression es) (map (\<lambda>i. [i]) is) =
           Inr (ArrayExpression (map (\<lambda>j. if j \<in> set is then g (es ! j) else es ! j) [0 ..< length es]))"
  using assms
proof (induction "is" arbitrary: es)
  case Nil
  then show ?case by (simp add: map_nth)
next
  case (Cons i "is")
  let ?es = "es[i := g (es ! i)]"
  from Cons.prems have i: "i < length es" "f (es ! i) = Inr (g (es ! i))" "i \<notin> set is" "distinct is"
    by auto
  have "\<forall>j\<in>set is. j < length ?es \<and> f (?es ! j) = Inr (g (?es ! j))"
    using Cons.prems i(3) by (auto simp: nth_list_update)
  from Cons.IH[OF i(4) this]
  have "forEachE (\<lambda>tree path. updateAt f path tree) (ArrayExpression ?es) (map (\<lambda>i. [i]) is) =
      Inr (ArrayExpression (map (\<lambda>j. if j \<in> set is then g (?es ! j) else ?es ! j) [0 ..< length ?es]))" .
  moreover have "map (\<lambda>j. if j \<in> set is then g (?es ! j) else ?es ! j) [0 ..< length ?es] =
      map (\<lambda>j. if j \<in> set (i # is) then g (es ! j) else es ! j) [0 ..< length es]"
    using i by (auto simp: nth_list_update)
  ultimately show ?case
    using i by (simp add: updateAt_top_level del: updateAt.simps)
qed

lemma descendants_distinct:
  "distinct (descendants n) \<and> (\<forall>p\<in>set (descendants n). p \<noteq> [])"
  "distinct (descendantsFrom i cs) \<and> (\<forall>p\<in>set (descendantsFrom i cs). p \<noteq> [] \<and> i \<le> hd p)"
proof (induction n and i cs rule: descendants_descendantsFrom.induct)
  case (1 n)
  then show ?case by (simp add: descendants.simps)
next
  case (2 i)
  then show ?case by simp
next
  case (3 i c cs)
  have "distinct (map ((#) i) (descendants c))"
    using 3(1) by (simp add: distinct_map)
  moreover have "[i] \<notin> set (map ((#) i) (descendants c))"
    using 3(1) by auto
  moreover have "p \<notin> set (descendantsFrom (Suc i) cs)" if "hd p = i" for p
    using 3(2) that by auto
  ultimately show ?case
    using 3(2) by (auto simp: le_Suc_eq)
qed


lemma filterE_result:
  "filterE f xs = Inr ys \<Longrightarrow> distinct xs \<Longrightarrow>
     distinct ys \<and> set ys \<subseteq> set xs \<and> (\<forall>y\<in>set ys. f y = Inr True)"
proof (induction xs arbitrary: ys)
  case Nil
  then show ?case by simp
next
  case (Cons x xs)
  from Cons.prems(1) obtain b zs where b: "f x = Inr b" and zs: "filterE f xs = Inr zs"
    and ys: "ys = (if b then x # zs else zs)"
    by (auto split: sum.splits)
  from Cons.IH[OF zs] Cons.prems(2) have "distinct zs" "set zs \<subseteq> set xs" "\<forall>y\<in>set zs. f y = Inr True"
    by auto
  with b ys Cons.prems(2) show ?case by auto
qed

lemma findPaths_distinct: "distinct (findPaths isKind tree)"
  by (simp add: findPaths_def descendants_distinct)

lemma findPluginsByName_found:
  assumes "findPluginsByName tree [name] = Inr ps"
  shows "distinct ps"
    and "p \<in> set ps \<Longrightarrow> \<exists>callee as. subnode tree p = Some (NewExpression callee as)"
proof -
  note r = filterE_result[OF assms[unfolded findPluginsByName_def] findPaths_distinct]
  from r show "distinct ps" by simp
  assume "p \<in> set ps"
  with r have "(case subnode tree p of
               Some (NewExpression callee as) \<Rightarrow>
                 (case memberExpressionToPathString callee of
                    Inl e \<Rightarrow> Inl e
                  | Inr s \<Rightarrow> Inr (list_ex (\<lambda>plugin. s = Some plugin) [name]))
             | _ \<Rightarrow> Inr False) = Inr True"
    by blast
  then show "\<exists>callee as. subnode tree p = Some (NewExpression callee as)"
    by (auto split: option.splits jsval.splits)
qed

lemma upsert_top_level:
  assumes found: "findPluginsByName (ArrayExpression es) [name] = Inr (map (\<lambda>i. [i]) is)"
    and nonempty: "is \<noteq> []"
    and props: "createOptionsProps options = Inr (Some props)"
    and ok: "\<forall>j\<in>set is. updatePlugin props (es ! j) = Inr (g (es ! j))"
  shows "createOrUpdatePluginByName (ArrayExpression es) name options =
           Inr (ArrayExpression (map (\<lambda>j. if j \<in> set is then g (es ! j) else es ! j) [0 ..< length es]))"
proof -
  from findPluginsByName_found(1)[OF found] have d: "distinct is"
    by (simp add: distinct_map)
  have "j < length es" if "j \<in> set is" for j
  proof -
    from that have "[j] \<in> set (map (\<lambda>i. [i]) is)" by simp
    from findPluginsByName_found(2)[OF found this] show ?thesis
      by (auto simp: children_def split: if_splits)
  qed
  with ok have "\<forall>i\<in>set is. i < length es \<and> updatePlugin props (es ! i) = Inr (g (es ! i))"
    by simp
  from forEach_top_level[OF d this] show ?thesis
    using nonempty by (simp add: createOrUpdatePluginByName_def found props)
qed

lemma updatePlugin_no_arguments:
  "updatePlugin props (NewExpression callee []) = Inr (NewExpression callee [ObjectExpression props])"
  by (simp add: updatePlugin_def)




text \<open>
  Claim C4, at an input where the existing argument object already has the key: the
  result holds two properties \<^verbatim>\<open>foo\<close>, the old one and the new one. The search compares
  \<^verbatim>\<open>opt.key.value\<close>, which an identifier key does not have, so it never finds the key
  (lemma \<open>existingProps_createProperty\<close>).
\<close>

theorem C4_duplicate_property:
  "createOrUpdatePluginByName
     (ArrayExpression
        [NewExpression (Identifier ''Plugin'')
           [ObjectExpression [Property (Identifier ''foo'') (Literal (VBool True))]]])
     ''Plugin'' (VObj [(''bar'', VStr ''baz''), (''foo'', VStr ''false'')])
   = Inr (ArrayExpression
       [NewExpression (Identifier ''Plugin'')
         [ObjectExpression
           [Property (Identifier ''foo'') (Literal (VBool True)),
            Property (Identifier ''bar'') (Literal (VStr ''baz'')),
            Property (Identifier ''foo'') (Literal (VBool False))]]])"
  by code_simp

lemma subnode_dotted:
  "isDottedName c \<Longrightarrow> subnode c p = Some n \<Longrightarrow> \<not> isObjectExpression n"
proof (induction p arbitrary: c)
  case Nil
  then show ?case by (cases c) (auto simp: isObjectExpression_def)
next
  case (Cons i p)
  from Cons.prems(1) show ?case
  proof (cases c rule: isDottedName.cases)
    case (1 s)
    with Cons.prems show ?thesis by (simp add: children_def)
  next
    case (2 ob pr)
    with Cons.prems have "i < 2" by (simp add: children_def split: if_splits)
    then consider "i = 0" | "i = 1" by linarith
    then show ?thesis
    proof cases
      case 1
      with 2 Cons.prems Cons.IH[of ob] show ?thesis by (simp add: children_def)
    next
      case 2
      with \<open>c = MemberExpression ob pr\<close> Cons.prems Cons.IH[of pr] show ?thesis
        by (simp add: children_def)
    qed
  qed (use Cons.prems in auto)
qed

lemma existingProps_optionProperty: "existingProps obj (optionProperty_spec kv) = []"
proof -
  have "valueOf (valueNode_spec (VStr k)) \<noteq> VStr name" for k name
    by (simp add: valueNode_spec_def valueOf_def)
  then show ?thesis
    by (auto simp: existingProps_def filter_empty_conv optionProperty_spec_def keyOf_def
        split: option.splits jsval.splits)
qed

lemma mergeOptions_first_argument:
  "forEachE (mergeOption [Suc 0]) (NewExpression callee (ObjectExpression ps # rest))
       (map optionProperty_spec kvs) =
     Inr (NewExpression callee (ObjectExpression (ps @ map optionProperty_spec kvs) # rest))"
proof (induction kvs arbitrary: ps)
  case Nil
  then show ?case by simp
next
  case (Cons kv kvs)
  have "mergeOption [Suc 0] (NewExpression callee (ObjectExpression ps # rest)) (optionProperty_spec kv) =
      Inr (NewExpression callee (ObjectExpression (ps @ [optionProperty_spec kv]) # rest))"
    by (simp add: mergeOption_def children_def existingProps_optionProperty pushProperty_def
        withChildren_def)
  with Cons.IH[of "ps @ [optionProperty_spec kv]"] show ?case by simp
qed

lemma findPaths_first_argument:
  assumes "isDottedName callee"
  shows "\<exists>qs. findPaths isObjectExpression (NewExpression callee (ObjectExpression ps # rest)) = [Suc 0] # qs"
proof -
  let ?call = "NewExpression callee (ObjectExpression ps # rest)"
  let ?P = "\<lambda>p. case subnode ?call p of None \<Rightarrow> False | Some n \<Rightarrow> isObjectExpression n"
  let ?A = "[0] # map ((#) 0) (descendants callee)"
  let ?B = "map ((#) (Suc 0)) (descendants (ObjectExpression ps)) @ descendantsFrom (Suc (Suc 0)) rest"
  have d: "descendants ?call = ?A @ ([Suc 0] # ?B)"
    by (simp add: descendants.simps[of ?call] children_def)
  have "\<not> ?P [0]"
    using assms by (cases callee rule: isDottedName.cases) (auto simp: children_def isObjectExpression_def)
  moreover have "\<not> ?P (0 # p)" for p
    using subnode_dotted[OF assms, of p] by (auto simp: children_def split: option.splits)
  ultimately have a: "filter ?P ?A = []"
    by (auto simp: filter_empty_conv)
  have b: "?P [Suc 0]" by (simp add: children_def isObjectExpression_def)
  have "findPaths isObjectExpression ?call = filter ?P ?A @ filter ?P ([Suc 0] # ?B)"
    unfolding findPaths_def d filter_append ..
  also have "\<dots> = [Suc 0] # filter ?P ?B"
    unfolding a using b by simp
  finally show ?thesis by blast
qed

lemma updatePlugin_upsertable:
  assumes "upsertable call"
  shows "updatePlugin (map optionProperty_spec kvs) call = Inr (upsertCall_spec (map optionProperty_spec kvs) call)"
proof -
  from assms consider (none) callee where "call = NewExpression callee []"
    | (object) callee ps rest where "call = NewExpression callee (ObjectExpression ps # rest)" "isDottedName callee"
    by (auto simp: upsertable_def split: jsval.splits list.splits)
  then show ?thesis
  proof cases
    case none
    then show ?thesis by (simp add: updatePlugin_no_arguments upsertCall_spec_def)
  next
    case object
    from findPaths_first_argument[OF object(2), of ps rest] obtain qs where
      "findPaths isObjectExpression call = [1] # qs" using object(1) by auto
    with object(1) show ?thesis
      by (simp add: updatePlugin_def mergeOptions_first_argument upsertCall_spec_def)
  qed
qed

section \<open>Theorems: several matches\<close>

lemma mapE_append:
  "mapE f (xs @ ys) =
     (case mapE f xs of
        Inl e \<Rightarrow> Inl e
      | Inr as \<Rightarrow> (case mapE f ys of Inl e \<Rightarrow> Inl e | Inr bs \<Rightarrow> Inr (as @ bs)))"
  by (induction xs) (auto split: sum.splits)

lemma mapE_defined:
  "\<forall>x\<in>set xs. \<exists>y. f x = Inr y \<Longrightarrow> \<exists>ys. mapE f xs = Inr ys"
  by (induction xs) auto

lemma overwriteFirst_split:
  assumes "\<forall>p\<in>set pre. keyNameOf p \<noteq> Inr (Some key)" and "nameOf k = Inr (Some key)"
  shows "overwriteFirst key val (pre @ Property k v # post) = Some (pre @ Property k val # post)"
  using assms by (induction pre) (auto simp: keyNameOf_def keyOf_def)

lemma checkIfExistsAndAddValue_first:
  assumes "nameOf k = Inr (Some key)"
    and "\<forall>p\<in>set pre. \<exists>n. keyNameOf p = Inr n \<and> n \<noteq> Some key"
    and "\<forall>p\<in>set post. \<exists>n. keyNameOf p = Inr n"
  shows "checkIfExistsAndAddValue (ObjectExpression (pre @ Property k v # post)) key val =
           Inr (ObjectExpression (pre @ Property k val # post))"
proof -
  have "\<forall>p\<in>set (pre @ Property k v # post). \<exists>n. keyNameOf p = Inr n"
    using assms by (auto simp: keyNameOf_def)
  from mapE_defined[OF this] obtain names where
    "mapE keyNameOf (pre @ Property k v # post) = Inr names" by blast
  moreover have "overwriteFirst key val (pre @ Property k v # post) = Some (pre @ Property k val # post)"
    using assms by (intro overwriteFirst_split) auto
  ultimately show ?thesis by (simp add: checkIfExistsAndAddValue_def)
qed

lemma createLiteral_literal:
  "isLiteralValue v \<Longrightarrow> createLiteral v = Inr (Literal (literalValue_spec v))"
  by (cases v)
    (auto simp: isLiteralValue_def literalValue_spec_def createLiteral_def j_literal_def Let_def
      isNaN_def Number_true Number_false)

lemma createProperty_literal:
  assumes "isLiteralValue v"
  shows "createProperty (VStr k) v = Inr (optionProperty_spec (k, v))"
proof -
  have p: "isPrimitive (VStr k)" by (simp add: isPrimitive_def)
  from valueNode_spec_shape[OF p] have "isExpression (valueNode_spec (VStr k))" by simp
  then show ?thesis
    by (simp add: createProperty_def createIdentifierOrLiteral_primitive[OF p]
        createLiteral_literal[OF assms] j_property_def optionProperty_spec_def isExpression_def)
qed

lemma createOptionsProps_literals:
  assumes "truthy options" and "objectEntries options = Inr kvs"
    and "list_all (\<lambda>kv. isLiteralValue (snd kv)) kvs"
  shows "createOptionsProps options = Inr (Some (map optionProperty_spec kvs))"
proof -
  have "mapE (\<lambda>(key, v). createProperty (VStr key) v) kvs = Inr (map optionProperty_spec kvs)"
    using assms(3) by (intro mapE_total) (auto simp: list_all_iff createProperty_literal)
  with assms(1,2) show ?thesis
    by (simp add: createOptionsProps_def)
qed

text \<open>
  Claim C9, as amended. Let the options be given (a truthy value) and let each of their
  values be a string, a number, a boolean, \<^verbatim>\<open>null\<close> or a regular expression. When the
  matching constructor calls are elements of the plugins array and each has either no
  argument or an object expression as first argument (under a callee that is a dotted
  name), \<^verbatim>\<open>createOrUpdatePluginByName\<close> updates every one of them and raises no error: a
  call without arguments gains the options object as its argument, an object argument
  gains the option properties at its end; every other element of the array stays as it
  is. \<^verbatim>\<open>checkIfExistsAndAddValue\<close>, in an object whose properties all have keys, overwrites
  the value of the first property of the given key only; every other property, a later
  one of the same key included, is left as it is, and no error is raised.
\<close>

theorem C9_multiple_matches:
  assumes "findPluginsByName (ArrayExpression es) [name] = Inr (map (\<lambda>i. [i]) is)"
    and "is \<noteq> []"
    and "truthy options"
    and "objectEntries options = Inr kvs"
    and "list_all (\<lambda>kv. isLiteralValue (snd kv)) kvs"
    and "\<forall>j\<in>set is. upsertable (es ! j)"
    and "nameOf k = Inr (Some key)"
    and "\<forall>p\<in>set pre. \<exists>n. keyNameOf p = Inr n \<and> n \<noteq> Some key"
    and "\<forall>p\<in>set post. \<exists>n. keyNameOf p = Inr n"
  shows "createOrUpdatePluginByName (ArrayExpression es) name options =
           Inr (ArrayExpression
                  (map (\<lambda>j. if j \<in> set is
                             then upsertCall_spec (map optionProperty_spec kvs) (es ! j)
                             else es ! j) [0 ..< length es]))
       \<and> checkIfExistsAndAddValue (ObjectExpression (pre @ Property k v # post)) key val =
           Inr (ObjectExpression (pre @ Property k val # post))"
proof -
  have "\<forall>j\<in>set is. updatePlugin (map optionProperty_spec kvs) (es ! j) =
      Inr (upsertCall_spec (map optionProperty_spec kvs) (es ! j))"
    using assms(6) by (simp add: updatePlugin_upsertable)
  from upsert_top_level[OF assms(1,2) createOptionsProps_literals[OF assms(3,4,5)] this]
    checkIfExistsAndAddValue_first[OF assms(7,8,9)]
  show ?thesis by simp
qed

theorem C9_multiple_matches_witness:
  "createOrUpdatePluginByName
     (ArrayExpression
        [NewExpression (Identifier ''P'') [],
         Identifier ''other'',
         NewExpression (Identifier ''P'') [ObjectExpression [Property (Identifier ''a'') (Literal (VBool True))]]])
     ''P'' (VObj [(''b'', VStr ''1''), (''c'', VNull)])
   = Inr (ArrayExpression
        [NewExpression (Identifier ''P'')
           [ObjectExpression [Property (Identifier ''b'') (Literal (VNum (Finite 1))),
                              Property (Identifier ''c'') (Literal VNull)]],
         Identifier ''other'',
         NewExpression (Identifier ''P'')
           [ObjectExpression [Property (Identifier ''a'') (Literal (VBool True)),
                              Property (Identifier ''b'') (Literal (VNum (Finite 1))),
                              Property (Identifier ''c'') (Literal VNull)]]])
   \<and> checkIfExistsAndAddValue
       (ObjectExpression
          [Property (Identifier ''x'') (Literal (VNum (Finite 0))),
           Property (Identifier ''k'') (Literal (VNum (Finite 1))),
           Property (Identifier ''k'') (Literal (VNum (Finite 2)))])
       ''k'' (Literal (VNum (Finite 3)))
     = Inr (ObjectExpression
          [Property (Identifier ''x'') (Literal (VNum (Finite 0))),
           Property (Identifier ''k'') (Literal (VNum (Finite 3))),
           Property (Identifier ''k'') (Literal (VNum (Finite 2)))])"
proof -
  let ?es = "[NewExpression (Identifier ''P'') [],
         Identifier ''other'',
         NewExpression (Identifier ''P'') [ObjectExpression [Property (Identifier ''a'') (Literal (VBool True))]]]"
  let ?kvs = "[(''b'', VStr ''1''), (''c'', VNull)]"
  let ?props = "[Property (Identifier ''b'') (Literal (VNum (Finite 1))),
                 Property (Identifier ''c'') (Literal VNull)]"
  have h1: "findPluginsByName (ArrayExpression ?es) [''P''] = Inr (map (\<lambda>i. [i]) [0, 2])"
    by code_simp
  have h2: "[0, 2::nat] \<noteq> []" by simp
  have h3: "truthy (VObj ?kvs)" by (simp add: truthy_def)
  have h4: "objectEntries (VObj ?kvs) = Inr ?kvs" by (simp add: objectEntries_def)
  have h5: "list_all (\<lambda>kv. isLiteralValue (snd kv)) ?kvs"
    by (simp add: isLiteralValue_def)
  have h6: "\<forall>j\<in>set [0, 2::nat]. upsertable (?es ! j)"
    by (simp add: upsertable_def)
  have h7: "nameOf (Identifier ''k'') = Inr (Some ''k'')" by (simp add: nameOf_def)
  have h8: "\<forall>p\<in>set [Property (Identifier ''x'') (Literal (VNum (Finite 0)))].
      \<exists>n. keyNameOf p = Inr n \<and> n \<noteq> Some ''k''"
    by (simp add: keyNameOf_def nameOf_def)
  have h9: "\<forall>p\<in>set [Property (Identifier ''k'') (Literal (VNum (Finite 2)))]. \<exists>n. keyNameOf p = Inr n"
    by (simp add: keyNameOf_def nameOf_def)
  have o: "map optionProperty_spec ?kvs = ?props"
    by code_simp
  have m: "map (\<lambda>j. if j \<in> set [0, 2::nat] then upsertCall_spec ?props (?es ! j) else ?es ! j)
             [0 ..< length ?es]
      = [NewExpression (Identifier ''P'') [ObjectExpression ?props],
         Identifier ''other'',
         NewExpression (Identifier ''P'')
           [ObjectExpression [Property (Identifier ''a'') (Literal (VBool True)),
                              Property (Identifier ''b'') (Literal (VNum (Finite 1))),
                              Property (Identifier ''c'') (Literal VNull)]]]"
    by code_simp
  from C9_multiple_matches [OF h1 h2 h3 h4 h5 h6 h7 h8 h9,
      of "Literal (VNum (Finite 1))" "Literal (VNum (Finite 3))"]
  show ?thesis
    unfolding o m by simp
qed

text \<open>
  Claim C9 as stated fails: of two properties with the key \<^verbatim>\<open>k\<close>
  \<^verbatim>\<open>checkIfExistsAndAddValue\<close> changes the first and leaves the second; two matching
  calls whose arguments hold no object expression make \<^verbatim>\<open>createOrUpdatePluginByName\<close>
  throw; so does an option whose value is a nested mapping, which the literal builder
  refuses; and without options no matching call is changed.
\<close>

theorem C9_counterexample:
  "checkIfExistsAndAddValue
     (ObjectExpression
        [Property (Identifier ''k'') (Literal (VNum (Finite 1))),
         Property (Identifier ''k'') (Literal (VNum (Finite 2)))])
     ''k'' (Literal (VNum (Finite 3)))
   = Inr (ObjectExpression
        [Property (Identifier ''k'') (Literal (VNum (Finite 3))),
         Property (Identifier ''k'') (Literal (VNum (Finite 2)))])
   \<and> createOrUpdatePluginByName
       (ArrayExpression
          [NewExpression (Identifier ''P'') [Literal (VNum (Finite 1))],
           NewExpression (Identifier ''P'') [Literal (VNum (Finite 2))]])
       ''P'' (VObj [(''a'', VStr ''b'')])
     = Inl EmptyCollection
   \<and> createOrUpdatePluginByName
       (ArrayExpression
          [NewExpression (Identifier ''P'') [],
           NewExpression (Identifier ''P'') [ObjectExpression []]])
       ''P'' (VObj [(''b'', VObj [(''c'', VNum (Finite 1))])])
     = Inl BuilderError
   \<and> createOrUpdatePluginByName
       (ArrayExpression
          [NewExpression (Identifier ''P'') [],
           NewExpression (Identifier ''P'') [ObjectExpression []]])
       ''P'' VUndefined
     = Inr (ArrayExpression
          [NewExpression (Identifier ''P'') [],
           NewExpression (Identifier ''P'') [ObjectExpression []]])"
  by code_simp

section \<open>Theorems: reassign mode twice\<close>

lemma updateAt_subnode:
  "updateAt f p n =
     (case subnode n p of
        None \<Rightarrow> Inl TypeError
      | Some x \<Rightarrow> (case f x of Inl e \<Rightarrow> Inl e | Inr y \<Rightarrow> updateAt (\<lambda>_. Inr y) p n))"
  by (induction p arbitrary: n) (auto split: sum.splits option.splits)

lemma updateAt_value:
  "i < length props \<Longrightarrow> props ! i = Property key v \<Longrightarrow>
   updateAt f [i, Suc 0] (ObjectExpression props) =
     (case f v of Inl e \<Rightarrow> Inl e | Inr v' \<Rightarrow> Inr (ObjectExpression (props[i := Property key v'])))"
  by (simp add: children_def withChildren_def split: sum.splits)

lemma reassign_inner:
  "i < length props \<Longrightarrow> props ! i = Property key v \<Longrightarrow>
   forEachE (\<lambda>obj kv. updateAt (reassignStep h kv) [i, Suc 0] obj) (ObjectExpression props) kvs =
     (case reassignAll h kvs v of
        Inl e \<Rightarrow> Inl e
      | Inr v' \<Rightarrow> Inr (ObjectExpression (props[i := Property key v'])))"
proof (induction kvs arbitrary: props v)
  case Nil
  then show ?case by (simp add: reassignAll_def) (metis list_update_id)
next
  case (Cons kv kvs)
  show ?case
  proof (cases "reassignStep h kv v")
    case (Inl e)
    with Cons.prems show ?thesis
      by (simp add: updateAt_value reassignAll_def del: updateAt.simps)
  next
    case (Inr v1)
    let ?props = "props[i := Property key v1]"
    have "i < length ?props" "?props ! i = Property key v1"
      using Cons.prems by simp_all
    from Cons.IH[OF this] Inr Cons.prems show ?thesis
      by (simp add: updateAt_value reassignAll_def del: updateAt.simps split: sum.splits)
  qed
qed

lemma pushObjectKeys_reassign:
  assumes "reassignable (VObj kvs)"
  shows "pushObjectKeys h (ObjectExpression props) (VObj kvs) name True =
     forEachE (\<lambda>obj i. forEachE (\<lambda>obj kv. updateAt (reassignStep h kv) [i, Suc 0] obj) obj kvs)
       (ObjectExpression props) (matchingProps name props)"
proof -
  have step: "(case kv of (webpackProp, v) \<Rightarrow>
       if isInjectKey webpackProp then
         (if True then
            updateAt (\<lambda>pv. checkIfExistsAndAddValue pv webpackProp v) [i, 1] obj
          else
            (case createIdentifierOrLiteral v of
               Inl e \<Rightarrow> Inl e
             | Inr n \<Rightarrow> updateAt (\<lambda>pv. pushProperty pv n) [i, 1] obj))
       else if isArray v then
         (if True then
            forEachE
              (\<lambda>obj path.
                 updateAt (mergeArrayProperty h (arrayItems v)) path obj)
              obj (findProperties webpackProp obj)
          else
            (case createArrayWithChildren webpackProp v True of
               Inl e \<Rightarrow> Inl e
             | Inr propArray \<Rightarrow> updateAt (\<lambda>pv. pushProperty pv propArray) [i, 1] obj))
       else if v = VNull then Inl TypeError
       else if isScalar v \<or> has_paths v then
         updateAt (\<lambda>pv. pushCreateProperty pv webpackProp v) [i, 1] obj
       else
         (case (if \<not> True
                then updateAt
                       (\<lambda>pv. pushCreateProperty pv webpackProp (ObjectExpression []))
                       [i, 1] obj
                else Inr obj) of
            Inl e \<Rightarrow> Inl e
          | Inr obj' \<Rightarrow>
              (case subnode obj' [i, 1] of
                 None \<Rightarrow> Inl TypeError
               | Some pv \<Rightarrow>
                   (case pushObjectKeys h pv v webpackProp True of
                      Inl e \<Rightarrow> Inl e
                    | Inr pv' \<Rightarrow> updateAt (\<lambda>_. Inr pv') [i, 1] obj'))))
     = updateAt (reassignStep h kv) [i, Suc 0] obj"
    if "kv \<in> set kvs" for kv i obj
  proof -
    obtain k v where kv: "kv = (k, v)" by (cases kv)
    show ?thesis
    proof (cases "isInjectKey k")
      case True
      then show ?thesis by (simp add: kv reassignStep_def[abs_def] del: updateAt.simps)
    next
      case False
      with assms that kv have "isMapping v" "\<not> has_paths v"
        by (auto simp: list_all_iff)
      then obtain kvs' where v: "v = VObj kvs'" by (cases v) (auto simp: isMapping_def)
      have "updateAt (\<lambda>pv. pushObjectKeys h pv v k True) [i, Suc 0] obj =
          (case subnode obj [i, Suc 0] of
             None \<Rightarrow> Inl TypeError
           | Some pv \<Rightarrow>
               (case pushObjectKeys h pv v k True of
                  Inl e \<Rightarrow> Inl e
                | Inr pv' \<Rightarrow> updateAt (\<lambda>_. Inr pv') [i, Suc 0] obj))"
        by (rule updateAt_subnode)
      with False \<open>\<not> has_paths v\<close> show ?thesis
        by (simp add: kv v reassignStep_def[abs_def] isArray_def isScalar_def
            del: updateAt.simps subnode.simps split: sum.splits option.splits)
    qed
  qed
  show ?thesis
    by (subst pushObjectKeys.simps)
      (simp add: objectEntries_def step cong: forEachE_cong del: updateAt.simps subnode.simps)
qed

lemma matchingProps_iff:
  "i \<in> set (matchingProps name props) \<longleftrightarrow> i < length props \<and> keyName (props ! i) = Some name"
  by (auto simp: matchingProps_def)

lemma matchingProps_distinct: "distinct (matchingProps name props)"
  by (simp add: matchingProps_def)

lemma keyName_Some: "keyName p = Some name \<longleftrightarrow> (\<exists>v. p = Property (Identifier name) v)"
  by (auto simp: keyName_def split: jsval.splits)

lemma forEach_indices:
  assumes G: "\<And>props i. i < length props \<Longrightarrow> isProperty (props ! i) \<Longrightarrow>
        G (ObjectExpression props) i =
          (case T (props ! i) of Inl e \<Rightarrow> Inl e | Inr c \<Rightarrow> Inr (ObjectExpression (props[i := c])))"
    and "distinct is"
    and "\<forall>i\<in>set is. i < length xs \<and> isProperty (xs ! i)"
  shows "forEachE G (ObjectExpression xs) is = Inr y \<longleftrightarrow>
     (\<exists>ys. y = ObjectExpression ys \<and> length ys = length xs \<and>
        (\<forall>j<length xs. (j \<in> set is \<longrightarrow> T (xs ! j) = Inr (ys ! j)) \<and> (j \<notin> set is \<longrightarrow> ys ! j = xs ! j)))"
  using assms(2,3)
proof (induction "is" arbitrary: xs)
  case Nil
  show ?case
  proof
    assume "forEachE G (ObjectExpression xs) [] = Inr y"
    then show "\<exists>ys. y = ObjectExpression ys \<and> length ys = length xs \<and>
        (\<forall>j<length xs. (j \<in> set [] \<longrightarrow> T (xs ! j) = Inr (ys ! j)) \<and> (j \<notin> set [] \<longrightarrow> ys ! j = xs ! j))"
      by auto
  next
    assume "\<exists>ys. y = ObjectExpression ys \<and> length ys = length xs \<and>
        (\<forall>j<length xs. (j \<in> set [] \<longrightarrow> T (xs ! j) = Inr (ys ! j)) \<and> (j \<notin> set [] \<longrightarrow> ys ! j = xs ! j))"
    then obtain ys where "y = ObjectExpression ys" "length ys = length xs" "\<forall>j<length xs. ys ! j = xs ! j"
      by auto
    then have "ys = xs" by (simp add: nth_equalityI)
    with \<open>y = ObjectExpression ys\<close> show "forEachE G (ObjectExpression xs) [] = Inr y" by simp
  qed
next
  case (Cons i "is")
  from Cons.prems have i: "i < length xs" "isProperty (xs ! i)" "i \<notin> set is" "distinct is"
    and rest: "\<forall>j\<in>set is. j < length xs \<and> isProperty (xs ! j)"
    by auto
  have unfold: "forEachE G (ObjectExpression xs) (i # is) =
      (case T (xs ! i) of Inl e \<Rightarrow> Inl e | Inr c \<Rightarrow> forEachE G (ObjectExpression (xs[i := c])) is)"
    by (simp add: G[OF i(1,2)] split: sum.splits)
  have IH: "forEachE G (ObjectExpression (xs[i := c])) is = Inr y \<longleftrightarrow>
     (\<exists>ys. y = ObjectExpression ys \<and> length ys = length xs \<and>
        (\<forall>j<length xs. (j \<in> set is \<longrightarrow> T (xs ! j) = Inr (ys ! j)) \<and>
                         (j \<notin> set is \<longrightarrow> ys ! j = (xs[i := c]) ! j)))" for c
  proof -
    have "\<forall>j\<in>set is. j < length (xs[i := c]) \<and> isProperty ((xs[i := c]) ! j)"
      using rest i(3) by (metis length_list_update nth_list_update_neq)
    from Cons.IH[OF i(4) this] have "forEachE G (ObjectExpression (xs[i := c])) is = Inr y \<longleftrightarrow>
     (\<exists>ys. y = ObjectExpression ys \<and> length ys = length (xs[i := c]) \<and>
        (\<forall>j<length (xs[i := c]). (j \<in> set is \<longrightarrow> T ((xs[i := c]) ! j) = Inr (ys ! j)) \<and>
                         (j \<notin> set is \<longrightarrow> ys ! j = (xs[i := c]) ! j)))" .
    moreover have "T ((xs[i := c]) ! j) = T (xs ! j)" if "j \<in> set is" for j
      using that i(3) by (metis nth_list_update_neq)
    ultimately show ?thesis by auto
  qed
  show ?case
  proof
    assume "forEachE G (ObjectExpression xs) (i # is) = Inr y"
    with unfold obtain c where c: "T (xs ! i) = Inr c"
      and "forEachE G (ObjectExpression (xs[i := c])) is = Inr y"
      by (auto split: sum.splits)
    with IH[of c] obtain ys where ys: "y = ObjectExpression ys" "length ys = length xs"
      "\<forall>j<length xs. (j \<in> set is \<longrightarrow> T (xs ! j) = Inr (ys ! j)) \<and>
                         (j \<notin> set is \<longrightarrow> ys ! j = (xs[i := c]) ! j)"
      by auto
    have "\<forall>j<length xs. (j \<in> set (i # is) \<longrightarrow> T (xs ! j) = Inr (ys ! j)) \<and>
        (j \<notin> set (i # is) \<longrightarrow> ys ! j = xs ! j)"
      using ys(3) c i(1,3) by (auto simp: nth_list_update)
    with ys(1,2) show "\<exists>ys. y = ObjectExpression ys \<and> length ys = length xs \<and>
        (\<forall>j<length xs. (j \<in> set (i # is) \<longrightarrow> T (xs ! j) = Inr (ys ! j)) \<and>
                         (j \<notin> set (i # is) \<longrightarrow> ys ! j = xs ! j))"
      by blast
  next
    assume "\<exists>ys. y = ObjectExpression ys \<and> length ys = length xs \<and>
        (\<forall>j<length xs. (j \<in> set (i # is) \<longrightarrow> T (xs ! j) = Inr (ys ! j)) \<and>
                         (j \<notin> set (i # is) \<longrightarrow> ys ! j = xs ! j))"
    then obtain ys where ys: "y = ObjectExpression ys" "length ys = length xs"
      "\<forall>j<length xs. (j \<in> set (i # is) \<longrightarrow> T (xs ! j) = Inr (ys ! j)) \<and>
                         (j \<notin> set (i # is) \<longrightarrow> ys ! j = xs ! j)"
      by blast
    from ys(3) i(1) have c: "T (xs ! i) = Inr (ys ! i)" by simp
    have "\<forall>j<length xs. (j \<in> set is \<longrightarrow> T (xs ! j) = Inr (ys ! j)) \<and>
                         (j \<notin> set is \<longrightarrow> ys ! j = (xs[i := ys ! i]) ! j)"
      using ys(3) i(1,3) by (auto simp: nth_list_update)
    with IH[of "ys ! i"] ys(1,2) have "forEachE G (ObjectExpression (xs[i := ys ! i])) is = Inr y"
      by blast
    with unfold c show "forEachE G (ObjectExpression xs) (i # is) = Inr y" by simp
  qed
qed

lemma reassignProp_result:
  "reassignProp h kvs p = Inr p' \<Longrightarrow> \<exists>key v v'. p = Property key v \<and> p' = Property key v'
      \<and> reassignAll h kvs v = Inr v'"
  by (auto simp: reassignProp_def split: jsval.splits sum.splits)

lemma pushObjectKeys_reassign_iff:
  assumes "reassignable (VObj kvs)"
  shows "pushObjectKeys h x (VObj kvs) name True = Inr y \<longleftrightarrow>
     (\<exists>xs ys. x = ObjectExpression xs \<and> y = ObjectExpression ys \<and> length ys = length xs \<and>
        (\<forall>j<length xs. (keyName (xs ! j) = Some name \<longrightarrow> reassignProp h kvs (xs ! j) = Inr (ys ! j)) \<and>
                         (keyName (xs ! j) \<noteq> Some name \<longrightarrow> ys ! j = xs ! j)))"
proof (cases x)
  case (ObjectExpression xs)
  let ?G = "\<lambda>obj i. forEachE (\<lambda>obj kv. updateAt (reassignStep h kv) [i, Suc 0] obj) obj kvs"
  have G: "?G (ObjectExpression props) i =
          (case reassignProp h kvs (props ! i) of
             Inl e \<Rightarrow> Inl e
           | Inr c \<Rightarrow> Inr (ObjectExpression (props[i := c])))"
    if "i < length props" "isProperty (props ! i)" for props i
  proof -
    from that(2) obtain key v where p: "props ! i = Property key v"
      by (cases "props ! i") (auto simp: isProperty_def)
    from reassign_inner[OF that(1) p] show ?thesis
      by (simp add: p reassignProp_def split: sum.splits)
  qed
  have m: "\<forall>i\<in>set (matchingProps name xs). i < length xs \<and> isProperty (xs ! i)"
    by (auto simp: matchingProps_iff keyName_Some isProperty_def)
  from forEach_indices[of ?G "reassignProp h kvs", OF G matchingProps_distinct m, of y]
  show ?thesis
    by (simp add: ObjectExpression pushObjectKeys_reassign[OF assms] matchingProps_iff)
next
qed (auto simp: pushObjectKeys.simps)

lemma keyNameOf_Some: "keyNameOf p = Inr (Some k) \<longleftrightarrow> keyName p = Some k"
  by (auto simp: keyNameOf_def keyName_def nameOf_def split: jsval.splits)

lemma mapE_defined_iff: "(\<exists>ys. mapE f xs = Inr ys) \<longleftrightarrow> (\<forall>x\<in>set xs. \<exists>y. f x = Inr y)"
  by (induction xs) (auto split: sum.splits)

lemma overwriteFirst_None: "overwriteFirst k v xs = None \<longleftrightarrow> filter (\<lambda>p. keyName p = Some k) xs = []"
  by (induction xs) (auto simp: keyNameOf_Some)

lemma overwriteFirst_first:
  "overwriteFirst k v xs = Some zs \<Longrightarrow>
     \<exists>p ps. filter (\<lambda>p. keyName p = Some k) zs = p # ps \<and> valueOf p = v \<and> length zs = length xs"
proof (induction xs arbitrary: zs)
  case Nil
  then show ?case by simp
next
  case (Cons x xs)
  show ?case
  proof (cases "keyName x = Some k")
    case True
    then obtain w where "x = Property (Identifier k) w" by (auto simp: keyName_Some)
    with Cons.prems show ?thesis
      by (auto simp: keyNameOf_def nameOf_def keyOf_def keyName_def valueOf_def)
  next
    case False
    with Cons.prems obtain zs' where "overwriteFirst k v xs = Some zs'" "zs = x # zs'"
      by (auto simp: keyNameOf_Some)
    with Cons.IH[of zs'] False show ?thesis by auto
  qed
qed

lemma overwriteFirst_fix:
  "overwriteFirst k v zs = Some zs \<longleftrightarrow>
     (\<exists>p ps. filter (\<lambda>p. keyName p = Some k) zs = p # ps \<and> valueOf p = v)"
proof (induction zs)
  case Nil
  then show ?case by simp
next
  case (Cons x xs)
  show ?case
  proof (cases "keyName x = Some k")
    case True
    then obtain w where "x = Property (Identifier k) w" by (auto simp: keyName_Some)
    then show ?thesis
      by (auto simp: keyNameOf_def nameOf_def keyOf_def keyName_def valueOf_def)
  next
    case False
    with Cons.IH show ?thesis by (auto simp: keyNameOf_Some)
  qed
qed

lemma overwriteFirst_other:
  "overwriteFirst k' v' xs = Some zs \<Longrightarrow> k \<noteq> k' \<Longrightarrow>
     filter (\<lambda>p. keyName p = Some k) zs = filter (\<lambda>p. keyName p = Some k) xs \<and>
     (keysDefined xs \<longrightarrow> keysDefined zs)"
proof (induction xs arbitrary: zs)
  case Nil
  then show ?case by simp
next
  case (Cons x xs)
  show ?case
  proof (cases "keyName x = Some k'")
    case True
    then obtain w where "x = Property (Identifier k') w" by (auto simp: keyName_Some)
    with Cons.prems show ?thesis
      by (auto simp: keyNameOf_def nameOf_def keyOf_def keyName_def keysDefined_def)
  next
    case False
    with Cons.prems obtain zs' where "overwriteFirst k' v' xs = Some zs'" "zs = x # zs'"
      by (auto simp: keyNameOf_Some)
    with Cons.IH[of zs'] Cons.prems(2) show ?thesis by (auto simp: keysDefined_def)
  qed
qed

lemma checkIfExists_fix_iff:
  "checkIfExistsAndAddValue z k v = Inr z \<longleftrightarrow>
     (\<exists>zs. z = ObjectExpression zs \<and> keysDefined zs \<and>
        (\<exists>p ps. filter (\<lambda>p. keyName p = Some k) zs = p # ps \<and> valueOf p = v))"
proof (cases z)
  case (ObjectExpression zs)
  show ?thesis
  proof (cases "mapE keyNameOf zs")
    case (Inl e)
    then have "\<not> keysDefined zs"
      using mapE_defined_iff[of keyNameOf zs] by (auto simp: keysDefined_def)
    with Inl ObjectExpression show ?thesis by (simp add: checkIfExistsAndAddValue_def)
  next
    case (Inr names)
    then have d: "keysDefined zs"
      using mapE_defined_iff[of keyNameOf zs] by (auto simp: keysDefined_def)
    show ?thesis
    proof (cases "overwriteFirst k v zs")
      case None
      then have "filter (\<lambda>p. keyName p = Some k) zs = []" by (simp add: overwriteFirst_None)
      with None Inr ObjectExpression show ?thesis
        by (auto simp: checkIfExistsAndAddValue_def j_property_def split: if_splits)
    next
      case (Some zs')
      with Inr ObjectExpression d overwriteFirst_fix[of k v zs] show ?thesis
        by (auto simp: checkIfExistsAndAddValue_def)
    qed
  qed
qed (auto simp: checkIfExistsAndAddValue_def)

lemma checkIfExists_idem:
  assumes "checkIfExistsAndAddValue x k v = Inr z"
  shows "checkIfExistsAndAddValue z k v = Inr z"
proof -
  from assms obtain xs names where x: "x = ObjectExpression xs" and n: "mapE keyNameOf xs = Inr names"
    by (auto simp: checkIfExistsAndAddValue_def split: jsval.splits sum.splits)
  from n have d: "keysDefined xs"
    using mapE_defined_iff[of keyNameOf xs] by (auto simp: keysDefined_def)
  show ?thesis
  proof (cases "overwriteFirst k v xs")
    case None
    with assms x n have z: "z = ObjectExpression (xs @ [Property (Identifier k) v])"
      by (auto simp: checkIfExistsAndAddValue_def j_property_def split: if_splits)
    from None have "filter (\<lambda>p. keyName p = Some k) xs = []" by (simp add: overwriteFirst_None)
    then have "filter (\<lambda>p. keyName p = Some k) (xs @ [Property (Identifier k) v]) = [Property (Identifier k) v]"
      by (simp add: keyName_def)
    moreover have "keysDefined (xs @ [Property (Identifier k) v])"
      using d by (auto simp: keysDefined_def keyNameOf_def nameOf_def)
    ultimately show ?thesis
      unfolding checkIfExists_fix_iff z by (simp add: valueOf_def)
  next
    case (Some zs)
    with assms x n have z: "z = ObjectExpression zs"
      by (auto simp: checkIfExistsAndAddValue_def)
    from overwriteFirst_first[OF Some] obtain p ps where
      "filter (\<lambda>p. keyName p = Some k) zs = p # ps" "valueOf p = v" by blast
    moreover have "keysDefined zs"
    proof -
      obtain k0 :: string where "k0 \<noteq> k"
        by (metis list.simps(3))
      from overwriteFirst_other[OF Some this] d show ?thesis by simp
    qed
    ultimately show ?thesis
      unfolding checkIfExists_fix_iff z by blast
  qed
qed

lemma checkIfExists_other:
  assumes "checkIfExistsAndAddValue x k' v' = Inr z" and "k \<noteq> k'"
  shows "sameNamed k x z"
proof -
  from assms obtain xs names where x: "x = ObjectExpression xs" and n: "mapE keyNameOf xs = Inr names"
    by (auto simp: checkIfExistsAndAddValue_def split: jsval.splits sum.splits)
  show ?thesis
  proof (cases "overwriteFirst k' v' xs")
    case None
    with assms x n have z: "z = ObjectExpression (xs @ [Property (Identifier k') v'])"
      by (auto simp: checkIfExistsAndAddValue_def j_property_def split: if_splits)
    with x assms(2) show ?thesis
      by (auto simp: sameNamed_def keyName_def keysDefined_def keyNameOf_def nameOf_def)
  next
    case (Some zs)
    with assms x n have z: "z = ObjectExpression zs"
      by (auto simp: checkIfExistsAndAddValue_def)
    from overwriteFirst_other[OF Some assms(2)] x z show ?thesis
      by (auto simp: sameNamed_def)
  qed
qed

lemma pushObjectKeys_fix_iff:
  assumes "reassignable (VObj kvs)"
  shows "pushObjectKeys h z (VObj kvs) k True = Inr z \<longleftrightarrow>
     (\<exists>zs. z = ObjectExpression zs \<and>
        (\<forall>p\<in>set (filter (\<lambda>p. keyName p = Some k) zs). reassignProp h kvs p = Inr p))"
proof
  assume "pushObjectKeys h z (VObj kvs) k True = Inr z"
  then obtain zs where z: "z = ObjectExpression zs"
    and "\<forall>j<length zs. keyName (zs ! j) = Some k \<longrightarrow> reassignProp h kvs (zs ! j) = Inr (zs ! j)"
    unfolding pushObjectKeys_reassign_iff[OF assms] by auto
  then have "\<forall>p\<in>set (filter (\<lambda>p. keyName p = Some k) zs). reassignProp h kvs p = Inr p"
    by (auto simp: in_set_conv_nth)
  with z show "\<exists>zs. z = ObjectExpression zs \<and>
        (\<forall>p\<in>set (filter (\<lambda>p. keyName p = Some k) zs). reassignProp h kvs p = Inr p)"
    by blast
next
  assume "\<exists>zs. z = ObjectExpression zs \<and>
        (\<forall>p\<in>set (filter (\<lambda>p. keyName p = Some k) zs). reassignProp h kvs p = Inr p)"
  then obtain zs where z: "z = ObjectExpression zs"
    and f: "\<forall>p\<in>set (filter (\<lambda>p. keyName p = Some k) zs). reassignProp h kvs p = Inr p"
    by blast
  from f have "\<forall>j<length zs. (keyName (zs ! j) = Some k \<longrightarrow> reassignProp h kvs (zs ! j) = Inr (zs ! j)) \<and>
      (keyName (zs ! j) \<noteq> Some k \<longrightarrow> zs ! j = zs ! j)"
    by auto
  with z show "pushObjectKeys h z (VObj kvs) k True = Inr z"
    unfolding pushObjectKeys_reassign_iff[OF assms] by blast
qed

lemma filter_pointwise:
  assumes "length zs = length xs"
    and "\<forall>j<length xs. P (zs ! j) = P (xs ! j) \<and> (P (xs ! j) \<longrightarrow> zs ! j = xs ! j)"
  shows "filter P zs = filter P xs"
  using assms
proof (induction xs arbitrary: zs)
  case Nil
  then show ?case by simp
next
  case (Cons x xs)
  then obtain z zs' where zs: "zs = z # zs'" by (cases zs) auto
  from Cons.prems(2) zs have h: "P z = P x" "P x \<longrightarrow> z = x" by auto
  have "\<forall>j<length xs. P (zs' ! j) = P (xs ! j) \<and> (P (xs ! j) \<longrightarrow> zs' ! j = xs ! j)"
    using Cons.prems(2) zs by auto
  with Cons.IH[of zs'] Cons.prems(1) zs have "filter P zs' = filter P xs" by simp
  with h zs show ?case by auto
qed

lemma pushObjectKeys_other:
  assumes "reassignable (VObj kvs)" and "pushObjectKeys h x (VObj kvs) k' True = Inr z" and "k \<noteq> k'"
  shows "sameNamed k x z"
proof -
  from assms(2) obtain xs zs where x: "x = ObjectExpression xs" and z: "z = ObjectExpression zs"
    and len: "length zs = length xs"
    and el: "\<forall>j<length xs. (keyName (xs ! j) = Some k' \<longrightarrow> reassignProp h kvs (xs ! j) = Inr (zs ! j)) \<and>
                         (keyName (xs ! j) \<noteq> Some k' \<longrightarrow> zs ! j = xs ! j)"
    unfolding pushObjectKeys_reassign_iff[OF assms(1)] by auto
  have pt: "keyName (zs ! j) = keyName (xs ! j) \<and> keyNameOf (zs ! j) = keyNameOf (xs ! j)"
    if "j < length xs" for j
  proof (cases "keyName (xs ! j) = Some k'")
    case True
    with el that have "reassignProp h kvs (xs ! j) = Inr (zs ! j)" by simp
    from reassignProp_result[OF this] show ?thesis
      by (auto simp: keyName_def keyNameOf_def)
  next
    case False
    with el that show ?thesis by simp
  qed
  have "\<forall>j<length xs. (keyName (zs ! j) = Some k) = (keyName (xs ! j) = Some k) \<and>
      (keyName (xs ! j) = Some k \<longrightarrow> zs ! j = xs ! j)"
    using pt el assms(3) by auto
  from filter_pointwise[OF len this]
  have f: "filter (\<lambda>p. keyName p = Some k) zs = filter (\<lambda>p. keyName p = Some k) xs" .
  have "keysDefined zs" if "keysDefined xs"
    unfolding keysDefined_def
  proof
    fix p assume "p \<in> set zs"
    then obtain j where "j < length zs" "p = zs ! j" by (auto simp: in_set_conv_nth)
    with pt[of j] len that show "\<exists>n. keyNameOf p = Inr n"
      by (auto simp: keysDefined_def)
  qed
  with f x z show ?thesis by (auto simp: sameNamed_def)
qed

lemma reassignStep_other:
  assumes "entryReassignable kv'" and "reassignStep h kv' x = Inr z" and "k \<noteq> fst kv'"
  shows "sameNamed k x z"
proof (cases "isInjectKey (fst kv')")
  case True
  with assms(2) have "checkIfExistsAndAddValue x (fst kv') (snd kv') = Inr z"
    by (simp add: reassignStep_def)
  from checkIfExists_other[OF this assms(3)] show ?thesis .
next
  case False
  with assms(1) obtain kvs where v: "snd kv' = VObj kvs" and r: "reassignable (VObj kvs)"
    by (cases "snd kv'") (auto simp: entryReassignable_def isMapping_def)
  from False assms(2) v have "pushObjectKeys h x (VObj kvs) (fst kv') True = Inr z"
    by (simp add: reassignStep_def)
  from pushObjectKeys_other[OF r this assms(3)] show ?thesis .
qed

lemma reassignStep_transfer:
  assumes "entryReassignable kv" and "sameNamed (fst kv) x z" and "reassignStep h kv x = Inr x"
  shows "reassignStep h kv z = Inr z"
proof -
  from assms(2) obtain xs zs where x: "x = ObjectExpression xs" and z: "z = ObjectExpression zs"
    and f: "filter (\<lambda>p. keyName p = Some (fst kv)) xs = filter (\<lambda>p. keyName p = Some (fst kv)) zs"
    and kd: "keysDefined xs \<longrightarrow> keysDefined zs"
    unfolding sameNamed_def by blast
  show ?thesis
  proof (cases "isInjectKey (fst kv)")
    case True
    with assms(3) have "checkIfExistsAndAddValue x (fst kv) (snd kv) = Inr x"
      by (simp add: reassignStep_def)
    then obtain p ps where "keysDefined xs"
      and "filter (\<lambda>p. keyName p = Some (fst kv)) xs = p # ps" "valueOf p = snd kv"
      unfolding checkIfExists_fix_iff x by blast
    with f kd have "keysDefined zs \<and>
        (\<exists>p ps. filter (\<lambda>p. keyName p = Some (fst kv)) zs = p # ps \<and> valueOf p = snd kv)"
      by metis
    then have "checkIfExistsAndAddValue z (fst kv) (snd kv) = Inr z"
      unfolding checkIfExists_fix_iff z by blast
    with True show ?thesis by (simp add: reassignStep_def)
  next
    case False
    with assms(1) obtain kvs where v: "snd kv = VObj kvs" and r: "reassignable (VObj kvs)"
      by (cases "snd kv") (auto simp: entryReassignable_def isMapping_def)
    from False assms(3) v have "pushObjectKeys h x (VObj kvs) (fst kv) True = Inr x"
      by (simp add: reassignStep_def)
    then have "\<forall>p\<in>set (filter (\<lambda>p. keyName p = Some (fst kv)) xs). reassignProp h kvs p = Inr p"
      unfolding pushObjectKeys_fix_iff[OF r] x by blast
    with f have "\<forall>p\<in>set (filter (\<lambda>p. keyName p = Some (fst kv)) zs). reassignProp h kvs p = Inr p"
      by metis
    then have "pushObjectKeys h z (VObj kvs) (fst kv) True = Inr z"
      unfolding pushObjectKeys_fix_iff[OF r] z by blast
    with False v show ?thesis by (simp add: reassignStep_def)
  qed
qed

lemma reassignAll_preserves:
  assumes "list_all entryReassignable kvs" and "entryReassignable kv"
    and "fst kv \<notin> fst ` set kvs"
    and "reassignStep h kv x = Inr x"
    and "reassignAll h kvs x = Inr z"
  shows "reassignStep h kv z = Inr z"
  using assms
proof (induction kvs arbitrary: x)
  case Nil
  then show ?case by (simp add: reassignAll_def)
next
  case (Cons kv' kvs)
  from Cons.prems(5) obtain x1 where x1: "reassignStep h kv' x = Inr x1"
    and rest: "reassignAll h kvs x1 = Inr z"
    by (auto simp: reassignAll_def split: sum.splits)
  from Cons.prems(1,3) have "entryReassignable kv'" "fst kv \<noteq> fst kv'" by auto
  from reassignStep_other[OF this(1) x1 this(2)] have "sameNamed (fst kv) x x1" .
  from reassignStep_transfer[OF Cons.prems(2) this Cons.prems(4)]
  have "reassignStep h kv x1 = Inr x1" .
  from Cons.IH[OF _ Cons.prems(2) _ this rest] Cons.prems(1,3) show ?case by auto
qed

lemma reassignAll_fixes:
  assumes "list_all entryReassignable kvs" and "distinct (map fst kvs)"
    and idem: "\<And>kv x z. kv \<in> set kvs \<Longrightarrow> reassignStep h kv x = Inr z \<Longrightarrow> reassignStep h kv z = Inr z"
    and "reassignAll h kvs x = Inr z"
  shows "\<forall>kv\<in>set kvs. reassignStep h kv z = Inr z"
  using assms
proof (induction kvs arbitrary: x)
  case Nil
  then show ?case by simp
next
  case (Cons kv kvs)
  from Cons.prems(4) obtain x1 where x1: "reassignStep h kv x = Inr x1"
    and rest: "reassignAll h kvs x1 = Inr z"
    by (auto simp: reassignAll_def split: sum.splits)
  have f1: "reassignStep h kv x1 = Inr x1"
    by (rule Cons.prems(3)[OF _ x1]) simp
  from Cons.prems(1,2) have a: "list_all entryReassignable kvs" "entryReassignable kv"
    "fst kv \<notin> fst ` set kvs" "distinct (map fst kvs)" by auto
  from reassignAll_preserves[OF a(1,2,3) f1 rest] have "reassignStep h kv z = Inr z" .
  moreover have "\<forall>kv\<in>set kvs. reassignStep h kv z = Inr z"
  proof (rule Cons.IH[OF a(1) a(4) _ rest])
    fix kv' u w
    assume "kv' \<in> set kvs" "reassignStep h kv' u = Inr w"
    then show "reassignStep h kv' w = Inr w"
      by (intro Cons.prems(3)[of kv' u w]) simp_all
  qed
  ultimately show ?case by simp
qed

lemma forEachE_identity:
  "\<forall>x\<in>set xs. f s x = Inr s \<Longrightarrow> forEachE f s xs = Inr s"
  by (induction xs) auto

lemma size_entry: "kv \<in> set kvs \<Longrightarrow> size (snd kv) < size (VObj kvs)"
  by (induction kvs) auto

lemma pushObjectKeys_idem:
  "reassignable d \<Longrightarrow> pushObjectKeys h x d name True = Inr y \<Longrightarrow>
     pushObjectKeys h y d name True = Inr y"
proof (induction "size d" arbitrary: d x y name rule: less_induct)
  case less
  from less.prems(1) obtain kvs where d: "d = VObj kvs" by (cases d) auto
  with less.prems(1) have ok: "list_all entryReassignable kvs" and dist: "distinct (map fst kvs)"
    by (auto simp: entryReassignable_def list_all_iff)
  have step_idem: "reassignStep h kv u = Inr w \<Longrightarrow> reassignStep h kv w = Inr w"
    if "kv \<in> set kvs" for kv u w
  proof (cases "isInjectKey (fst kv)")
    case True
    then show "reassignStep h kv u = Inr w \<Longrightarrow> reassignStep h kv w = Inr w"
      by (simp add: reassignStep_def checkIfExists_idem)
  next
    case False
    with ok that have r: "reassignable (snd kv)"
      by (auto simp: list_all_iff entryReassignable_def)
    from size_entry[OF that] d have "size (snd kv) < size d" by simp
    from less.hyps[OF this r] False
    show "reassignStep h kv u = Inr w \<Longrightarrow> reassignStep h kv w = Inr w"
      by (simp add: reassignStep_def)
  qed
  have all_idem: "reassignAll h kvs v = Inr v' \<Longrightarrow> reassignAll h kvs v' = Inr v'" for v v'
  proof -
    assume a: "reassignAll h kvs v = Inr v'"
    have "\<forall>kv\<in>set kvs. reassignStep h kv v' = Inr v'"
      by (rule reassignAll_fixes[OF ok dist _ a]) (rule step_idem)
    then show "reassignAll h kvs v' = Inr v'"
      unfolding reassignAll_def by (rule forEachE_identity)
  qed
  have prop_idem: "reassignProp h kvs p = Inr p' \<Longrightarrow> reassignProp h kvs p' = Inr p'" for p p'
    using reassignProp_result[of h kvs p p'] all_idem
    by (auto simp: reassignProp_def)
  from less.prems(1) d have r: "reassignable (VObj kvs)" by simp
  from less.prems(2)[unfolded d pushObjectKeys_reassign_iff[OF r]]
  obtain xs ys where x: "x = ObjectExpression xs" and y: "y = ObjectExpression ys"
    and len: "length ys = length xs"
    and el: "\<forall>j<length xs. (keyName (xs ! j) = Some name \<longrightarrow> reassignProp h kvs (xs ! j) = Inr (ys ! j)) \<and>
                         (keyName (xs ! j) \<noteq> Some name \<longrightarrow> ys ! j = xs ! j)"
    by blast
  have "reassignProp h kvs (ys ! j) = Inr (ys ! j)" if "j < length ys" "keyName (ys ! j) = Some name" for j
  proof (cases "keyName (xs ! j) = Some name")
    case True
    with el that len have "reassignProp h kvs (xs ! j) = Inr (ys ! j)" by simp
    then show ?thesis by (rule prop_idem)
  next
    case False
    with el that len have "ys ! j = xs ! j" by simp
    with that False show ?thesis by simp
  qed
  then have "\<forall>p\<in>set (filter (\<lambda>p. keyName p = Some name) ys). reassignProp h kvs p = Inr p"
    by (auto simp: in_set_conv_nth)
  with y show ?case
    unfolding d pushObjectKeys_fix_iff[OF r] by blast
qed

text \<open>
  Claim C5, as amended. For every target and every description whose keys are distinct and
  either contain the marker \<^verbatim>\<open>inject\<close> or hold a nested mapping of the same kind,
  \<^verbatim>\<open>pushObjectKeys\<close> with reassign set, applied twice, gives what one application gives
  (an application that throws included).
\<close>

theorem C5_reassign_idempotent:
  assumes "reassignable d"
  shows "(case pushObjectKeys hashtable obj d name True of
            Inl e \<Rightarrow> Inl e
          | Inr obj' \<Rightarrow> pushObjectKeys hashtable obj' d name True)
         = pushObjectKeys hashtable obj d name True"
proof (cases "pushObjectKeys hashtable obj d name True")
  case (Inl e)
  then show ?thesis by simp
next
  case (Inr obj')
  from pushObjectKeys_idem[OF assms Inr] Inr show ?thesis by simp
qed

theorem C5_reassign_idempotent_witness:
  "(case pushObjectKeys hashtable_spec
           (ObjectExpression
              [Property (Identifier ''output'')
                 (ObjectExpression [Property (Identifier ''sub'') (ObjectExpression [])])])
           (VObj [(''injectTarget'', Identifier ''web''),
                  (''sub'', VObj [(''injectDeep'', Literal (VNum (Finite 1)))])])
           ''output'' True of
      Inl e \<Rightarrow> Inl e
    | Inr obj' \<Rightarrow>
        pushObjectKeys hashtable_spec obj'
          (VObj [(''injectTarget'', Identifier ''web''),
                 (''sub'', VObj [(''injectDeep'', Literal (VNum (Finite 1)))])])
          ''output'' True)
   = Inr (ObjectExpression
        [Property (Identifier ''output'')
           (ObjectExpression
              [Property (Identifier ''sub'')
                 (ObjectExpression [Property (Identifier ''injectDeep'') (Literal (VNum (Finite 1)))]),
               Property (Identifier ''injectTarget'') (Identifier ''web'')])])"
proof -
  have r: "reassignable (VObj [(''injectTarget'', Identifier ''web''),
                  (''sub'', VObj [(''injectDeep'', Literal (VNum (Finite 1)))])])"
    by code_simp
  have once: "pushObjectKeys hashtable_spec
           (ObjectExpression
              [Property (Identifier ''output'')
                 (ObjectExpression [Property (Identifier ''sub'') (ObjectExpression [])])])
           (VObj [(''injectTarget'', Identifier ''web''),
                  (''sub'', VObj [(''injectDeep'', Literal (VNum (Finite 1)))])])
           ''output'' True
     = Inr (ObjectExpression
        [Property (Identifier ''output'')
           (ObjectExpression
              [Property (Identifier ''sub'')
                 (ObjectExpression [Property (Identifier ''injectDeep'') (Literal (VNum (Finite 1)))]),
               Property (Identifier ''injectTarget'') (Identifier ''web'')])])"
    by code_simp
  show ?thesis
    unfolding C5_reassign_idempotent [OF r, where hashtable = hashtable_spec and name = "''output''"]
    by (rule once)
qed

text \<open>
  Claim C5 as stated fails: a scalar under a key without the marker is pushed again by
  the second application, so the object holds the property \<^verbatim>\<open>path\<close> twice.
\<close>

theorem C5_counterexample:
  "pushObjectKeys hashtable_spec
     (ObjectExpression [Property (Identifier ''output'') (ObjectExpression [])])
     (VObj [(''path'', VStr ''dist'')]) ''output'' True
   = Inr (ObjectExpression
        [Property (Identifier ''output'')
           (ObjectExpression [Property (Identifier ''path'') (Identifier ''dist'')])])
   \<and> pushObjectKeys hashtable_spec
     (ObjectExpression
        [Property (Identifier ''output'')
           (ObjectExpression [Property (Identifier ''path'') (Identifier ''dist'')])])
     (VObj [(''path'', VStr ''dist'')]) ''output'' True
   = Inr (ObjectExpression
        [Property (Identifier ''output'')
           (ObjectExpression
              [Property (Identifier ''path'') (Identifier ''dist''),
               Property (Identifier ''path'') (Identifier ''dist'')])])"
  by code_simp

section \<open>Theorems: sequence merge under reassign\<close>

text \<open>Whatever the deduplication step returns, its nodes are pushed behind the elements
  that are already there: the existing identifiers \<^verbatim>\<open>a\<close> and \<^verbatim>\<open>b\<close> have no value and do not
  enter the step at all.\<close>

lemma pushObjectKeys_array_appended:
  "pushObjectKeys hashtable
     (ObjectExpression
        [Property (Identifier ''module'')
           (ObjectExpression
              [Property (Identifier ''rules'') (ArrayExpression [Identifier ''a'', Identifier ''b''])])])
     (VObj [(''rules'', VArr [VStr ''b'', VStr ''c''])]) ''module'' True
   = (case mapE createIdentifierOrLiteral (hashtable [VStr ''b'', VStr ''c'']) of
        Inl e \<Rightarrow> Inl e
      | Inr nodes \<Rightarrow>
          Inr (ObjectExpression
            [Property (Identifier ''module'')
               (ObjectExpression
                  [Property (Identifier ''rules'')
                     (ArrayExpression ([Identifier ''a'', Identifier ''b''] @ nodes))])]))"
proof -
  let ?tree = "ObjectExpression
        [Property (Identifier ''module'')
           (ObjectExpression
              [Property (Identifier ''rules'') (ArrayExpression [Identifier ''a'', Identifier ''b''])])]"
  have f: "findProperties ''rules'' ?tree = [[0, 1, 0]]" by code_simp
  have m: "matchingProps ''module''
      [Property (Identifier ''module'')
           (ObjectExpression
              [Property (Identifier ''rules'') (ArrayExpression [Identifier ''a'', Identifier ''b''])])] = [0]"
    by code_simp
  have i: "\<not> isInjectKey ''rules''" by code_simp
  show ?thesis
    by (subst pushObjectKeys.simps)
      (simp add: f m i readValue_def valueOf_def objectEntries_def isArray_def arrayItems_def
        children_def withChildren_def mergeArrayProperty_def truthy_def split: sum.splits)
qed


text \<open>
  Claim C6, at the input of the claim. With identifiers \<^verbatim>\<open>a\<close>, \<^verbatim>\<open>b\<close> as existing elements the
  merged array is \<^verbatim>\<open>[a, b, b, c]\<close>; with string literals it is
  \<^verbatim>\<open>['a', 'b', a, b, c]\<close>. The merged and deduplicated values are appended to the old
  elements instead of replacing them.
\<close>

theorem C6_merged_array_appended:
  "pushObjectKeys hashtable_spec
     (ObjectExpression
        [Property (Identifier ''module'')
           (ObjectExpression
              [Property (Identifier ''rules'') (ArrayExpression [Identifier ''a'', Identifier ''b''])])])
     (VObj [(''rules'', VArr [VStr ''b'', VStr ''c''])]) ''module'' True
   = Inr (ObjectExpression
        [Property (Identifier ''module'')
           (ObjectExpression
              [Property (Identifier ''rules'')
                 (ArrayExpression [Identifier ''a'', Identifier ''b'', Identifier ''b'', Identifier ''c''])])])
   \<and> pushObjectKeys hashtable_spec
     (ObjectExpression
        [Property (Identifier ''module'')
           (ObjectExpression
              [Property (Identifier ''rules'')
                 (ArrayExpression [Literal (VStr ''a''), Literal (VStr ''b'')])])])
     (VObj [(''rules'', VArr [VStr ''b'', VStr ''c''])]) ''module'' True
   = Inr (ObjectExpression
        [Property (Identifier ''module'')
           (ObjectExpression
              [Property (Identifier ''rules'')
                 (ArrayExpression [Literal (VStr ''a''), Literal (VStr ''b''),
                                   Identifier ''a'', Identifier ''b'', Identifier ''c''])])])"
  by code_simp

end
